theory Spec2Isabelle
  imports Main "HOL-Library.AList"
begin

section \<open>Text files as Python reads and writes them\<close>

text \<open>
  The two scripts \<^verbatim>\<open>transcmd.py\<close> and \<^verbatim>\<open>translations.py\<close> read and write text
  files with \<^verbatim>\<open>open(..., encoding='utf-8')\<close> and parse them with the standard
  \<^verbatim>\<open>csv\<close> module in its default dialect. A file's content is a \<^typ>\<open>string\<close>, the
  decoded characters as they are stored (decoding itself is not modelled).
\<close>

abbreviation LF :: char where "LF \<equiv> CHR 0x0A"
abbreviation CR :: char where "CR \<equiv> CHR 0x0D"
abbreviation DQ :: char where "DQ \<equiv> CHR 0x22"
abbreviation COMMA :: char where "COMMA \<equiv> CHR 0x2C"

type_synonym path = string
type_synonym row = "string list"

text \<open>The file system: the paths that exist, each with its stored content.\<close>

type_synonym fs = "path \<Rightarrow> string option"

datatype csv_error = FieldLimit | NewlineInUnquotedField

datatype error = FileNotFoundError path | CsvError csv_error | IndexError

text \<open>
  \<^verbatim>\<open>open(p, 'r')\<close> with the default \<^verbatim>\<open>newline=None\<close>: universal newlines, every
  \<^verbatim>\<open>\r\n\<close> and every lone \<^verbatim>\<open>\r\<close> reaches the program as \<^verbatim>\<open>\n\<close>.
\<close>

fun universal_newlines :: "string \<Rightarrow> string" where
  "universal_newlines [] = []"
| "universal_newlines [c] = (if c = CR then [LF] else [c])"
| "universal_newlines (c # d # cs) =
     (if c = CR then
        (if d = LF then LF # universal_newlines cs
         else LF # universal_newlines (d # cs))
      else c # universal_newlines (d # cs))"

text \<open>
  \<^verbatim>\<open>fin.readline()\<close> on the text that is left: the line up to and including the
  first \<^verbatim>\<open>\n\<close> (the empty string at the end of the file), and what is left after it.
\<close>

fun readline :: "string \<Rightarrow> string \<times> string" where
  "readline [] = ([], [])"
| "readline (c # cs) =
     (if c = LF then ([c], cs)
      else (case readline cs of (l, rest) \<Rightarrow> (c # l, rest)))"

text \<open>Iterating over a file object: the lines that \<^verbatim>\<open>readline\<close> would return, in turn.\<close>

fun file_lines :: "string \<Rightarrow> string list" where
  "file_lines [] = []"
| "file_lines (c # cs) =
     (if c = LF then [c] # file_lines cs
      else (case file_lines cs of [] \<Rightarrow> [[c]] | l # ls \<Rightarrow> (c # l) # ls))"

section \<open>The csv reader\<close>

text \<open>
  \<^verbatim>\<open>csv.reader\<close> in the default dialect (delimiter comma, quote character the
  double quote, doubled quotes, no escape character, not strict), as the state machine of
  CPython's \<^verbatim>\<open>_csv.c\<close> (version 3.11 and later, where the end of a line is an event
  of its own). The states that only an escape character reaches are left out.
\<close>

datatype parser_state =
  START_RECORD | START_FIELD | IN_FIELD | IN_QUOTED_FIELD | QUOTE_IN_QUOTED_FIELD | EAT_CRNL

record reader =
  state :: parser_state
  rec_fields :: "string list"
  field :: string

definition field_limit :: nat where
  "field_limit = 131072"

definition parse_reset :: reader where
  "parse_reset = \<lparr>state = START_RECORD, rec_fields = [], field = []\<rparr>"

definition parse_save_field :: "reader \<Rightarrow> reader" where
  "parse_save_field r = r\<lparr>rec_fields := rec_fields r @ [field r], field := []\<rparr>"

definition parse_add_char :: "reader \<Rightarrow> char \<Rightarrow> csv_error + reader" where
  "parse_add_char r c =
     (if field_limit \<le> length (field r) then Inl FieldLimit
      else Inr (r\<lparr>field := field r @ [c]\<rparr>))"

text \<open>One character (\<open>Some c\<close>) or the end of a line (\<open>None\<close>, the C code's \<^verbatim>\<open>EOL\<close>).\<close>

fun start_field :: "reader \<Rightarrow> char option \<Rightarrow> csv_error + reader" where
  "start_field r None = Inr ((parse_save_field r)\<lparr>state := START_RECORD\<rparr>)"
| "start_field r (Some c) =
     (if c = LF \<or> c = CR then Inr ((parse_save_field r)\<lparr>state := EAT_CRNL\<rparr>)
      else if c = DQ then Inr (r\<lparr>state := IN_QUOTED_FIELD\<rparr>)
      else if c = COMMA then Inr (parse_save_field r)
      else (case parse_add_char r c of Inl e \<Rightarrow> Inl e
            | Inr r' \<Rightarrow> Inr (r'\<lparr>state := IN_FIELD\<rparr>)))"

fun parse_process_char :: "reader \<Rightarrow> char option \<Rightarrow> csv_error + reader" where
  "parse_process_char r ev =
     (case state r of
        START_RECORD \<Rightarrow>
          (case ev of
             None \<Rightarrow> Inr r
           | Some c \<Rightarrow>
               if c = LF \<or> c = CR then Inr (r\<lparr>state := EAT_CRNL\<rparr>)
               else start_field (r\<lparr>state := START_FIELD\<rparr>) ev)
      | START_FIELD \<Rightarrow> start_field r ev
      | IN_FIELD \<Rightarrow>
          (case ev of
             None \<Rightarrow> Inr ((parse_save_field r)\<lparr>state := START_RECORD\<rparr>)
           | Some c \<Rightarrow>
               if c = LF \<or> c = CR then Inr ((parse_save_field r)\<lparr>state := EAT_CRNL\<rparr>)
               else if c = COMMA then Inr ((parse_save_field r)\<lparr>state := START_FIELD\<rparr>)
               else parse_add_char r c)
      | IN_QUOTED_FIELD \<Rightarrow>
          (case ev of
             None \<Rightarrow> Inr r
           | Some c \<Rightarrow>
               if c = DQ then Inr (r\<lparr>state := QUOTE_IN_QUOTED_FIELD\<rparr>)
               else parse_add_char r c)
      | QUOTE_IN_QUOTED_FIELD \<Rightarrow>
          (case ev of
             None \<Rightarrow> Inr ((parse_save_field r)\<lparr>state := START_RECORD\<rparr>)
           | Some c \<Rightarrow>
               if c = DQ then
                 (case parse_add_char r c of Inl e \<Rightarrow> Inl e
                  | Inr r' \<Rightarrow> Inr (r'\<lparr>state := IN_QUOTED_FIELD\<rparr>))
               else if c = COMMA then Inr ((parse_save_field r)\<lparr>state := START_FIELD\<rparr>)
               else if c = LF \<or> c = CR then Inr ((parse_save_field r)\<lparr>state := EAT_CRNL\<rparr>)
               else (case parse_add_char r c of Inl e \<Rightarrow> Inl e
                     | Inr r' \<Rightarrow> Inr (r'\<lparr>state := IN_FIELD\<rparr>)))
      | EAT_CRNL \<Rightarrow>
          (case ev of
             None \<Rightarrow> Inr (r\<lparr>state := START_RECORD\<rparr>)
           | Some c \<Rightarrow>
               if c = LF \<or> c = CR then Inr r
               else Inl NewlineInUnquotedField))"

declare parse_process_char.simps [simp del]

text \<open>One line of input: its characters, then the end of the line.\<close>

fun process_line :: "reader \<Rightarrow> string \<Rightarrow> csv_error + reader" where
  "process_line r [] = parse_process_char r None"
| "process_line r (c # cs) =
     (case parse_process_char r (Some c) of
        Inl e \<Rightarrow> Inl e
      | Inr r' \<Rightarrow> process_line r' cs)"

text \<open>
  The rows the reader yields over the lines it is given, and the error that ends the
  iteration if one does: the rows before an error have already been handed to the loop
  that consumes them. A record is complete when a line ends in \<open>START_RECORD\<close>; at the
  end of the input an open quoted field is closed and its record yielded.
\<close>

fun yield :: "row \<Rightarrow> row list \<times> csv_error option \<Rightarrow> row list \<times> csv_error option" where
  "yield r (rs, e) = (r # rs, e)"

fun read_rows :: "reader \<Rightarrow> string list \<Rightarrow> row list \<times> csv_error option" where
  "read_rows r [] =
     (if field r \<noteq> [] \<or> state r = IN_QUOTED_FIELD
      then ([rec_fields (parse_save_field r)], None) else ([], None))"
| "read_rows r (l # ls) =
     (case process_line r l of
        Inl e \<Rightarrow> ([], Some e)
      | Inr r' \<Rightarrow>
          if state r' = START_RECORD then yield (rec_fields r') (read_rows parse_reset ls)
          else read_rows r' ls)"

definition csv_reader :: "string list \<Rightarrow> row list \<times> csv_error option" where
  "csv_reader ls = read_rows parse_reset ls"

section \<open>The csv writer\<close>

text \<open>
  \<^verbatim>\<open>csv.writer(f, quoting=csv.QUOTE_ALL)\<close>: every field between double quotes with
  its own quotes doubled, fields joined by commas, the record ended by \<^verbatim>\<open>\r\n\<close>. The
  files are opened with \<^verbatim>\<open>newline=''\<close>, so what is written is stored as it is.
\<close>

definition quote_field :: "string \<Rightarrow> string" where
  "quote_field f = DQ # concat (map (\<lambda>c. if c = DQ then [DQ, DQ] else [c]) f) @ [DQ]"

fun join_fields :: "string list \<Rightarrow> string" where
  "join_fields [] = []"
| "join_fields [f] = f"
| "join_fields (f # g # fs) = f @ COMMA # join_fields (g # fs)"

definition writerow :: "row \<Rightarrow> string" where
  "writerow r = join_fields (map quote_field r) @ [CR, LF]"

definition writerows :: "row list \<Rightarrow> string" where
  "writerows rs = concat (map writerow rs)"

section \<open>The Extractor: \<^verbatim>\<open>create_mapping_file\<close>\<close>

text \<open>
  \<^verbatim>\<open>row[i]\<close> raises \<^verbatim>\<open>IndexError\<close> out of range; the loops below only index under
  their \<^verbatim>\<open>len(row) >= n\<close> guards, and the model keeps both.
\<close>

definition getitem :: "row \<Rightarrow> nat \<Rightarrow> error + string" where
  "getitem r i = (if i < length r then Inr (r ! i) else Inl IndexError)"

text \<open>
  The loop of \<^verbatim>\<open>create_mapping_file\<close> (the same text in both scripts) over the rows
  that follow the three skipped records: what has been written so far, the count
  \<^verbatim>\<open>rows_written\<close>, and the exception that stopped the loop, if any.
\<close>

fun extract_rows :: "row list \<Rightarrow> string \<Rightarrow> nat \<Rightarrow> string \<times> nat \<times> error option" where
  "extract_rows [] out rows_written = (out, rows_written, None)"
| "extract_rows (r # rs) out rows_written =
     (if 3 \<le> length r then
        (case getitem r 0 of
           Inl e \<Rightarrow> (out, rows_written, Some e)
         | Inr key \<Rightarrow>
             (case getitem r 1 of
                Inl e \<Rightarrow> (out, rows_written, Some e)
              | Inr original_text \<Rightarrow>
                  extract_rows rs (out @ writerow [key, original_text]) (rows_written + 1)))
      else extract_rows rs out rows_written)"

text \<open>
  \<^verbatim>\<open>create_mapping_file(source_csv, mapping_csv)\<close>. The source is opened first, then
  the mapping file is opened for writing, which creates or empties it: when both paths
  are the same file, the source is empty by the time it is read. Three
  \<^verbatim>\<open>next(reader, None)\<close> skip three records. The result is the number the function
  prints, or the exception it raises; what was written before an exception stays.
\<close>

definition create_mapping_file :: "fs \<Rightarrow> path \<Rightarrow> path \<Rightarrow> (error + nat) \<times> fs" where
  "create_mapping_file files source_csv mapping_csv =
     (case files source_csv of
        None \<Rightarrow> (Inl (FileNotFoundError source_csv), files)
      | Some stored \<Rightarrow>
          (case csv_reader (file_lines (universal_newlines
                  (if mapping_csv = source_csv then [] else stored))) of
             (rows, reader_error) \<Rightarrow>
               (case extract_rows (drop 3 rows) [] 0 of
                  (out, rows_written, loop_error) \<Rightarrow>
                    (case loop_error of
                       Some e \<Rightarrow> Inl e
                     | None \<Rightarrow>
                         (case reader_error of
                            Some e \<Rightarrow> Inl (CsvError e)
                          | None \<Rightarrow> Inr rows_written),
                     files(mapping_csv \<mapsto> out)))))"

section \<open>The Merger: \<^verbatim>\<open>build_translation_file\<close>\<close>

text \<open>
  The dictionary \<^verbatim>\<open>translations\<close> is an association list in insertion order;
  \<^verbatim>\<open>translations[key] = new_text\<close> is \<^const>\<open>AList.update\<close>: a key that is present
  keeps its place and gets the new value.
\<close>

type_synonym translation_index = "(string \<times> string) list"

fun load_rows :: "row list \<Rightarrow> translation_index \<Rightarrow> error + translation_index" where
  "load_rows [] translations = Inr translations"
| "load_rows (r # rs) translations =
     (if 2 \<le> length r then
        (case getitem r 0 of
           Inl e \<Rightarrow> Inl e
         | Inr key \<Rightarrow>
             (case getitem r 1 of
                Inl e \<Rightarrow> Inl e
              | Inr new_text \<Rightarrow> load_rows rs (AList.update key new_text translations)))
      else load_rows rs translations)"

text \<open>
  The first block of both variants of \<^verbatim>\<open>build_translation_file\<close>: open the mapping
  file, read every record, fill the dictionary.
\<close>

definition load_translations :: "fs \<Rightarrow> path \<Rightarrow> error + translation_index" where
  "load_translations files mapping_csv =
     (case files mapping_csv of
        None \<Rightarrow> Inl (FileNotFoundError mapping_csv)
      | Some stored \<Rightarrow>
          (case csv_reader (file_lines (universal_newlines stored)) of
             (rows, reader_error) \<Rightarrow>
               (case load_rows rows [] of
                  Inl e \<Rightarrow> Inl e
                | Inr translations \<Rightarrow>
                    (case reader_error of
                       Some e \<Rightarrow> Inl (CsvError e)
                     | None \<Rightarrow> Inr translations))))"

text \<open>
  The loop over the data rows, the same text in both variants: the rows appended so far
  and \<^verbatim>\<open>matched_count\<close> are the loop's state.
\<close>

fun resolve_rows ::
  "translation_index \<Rightarrow> row list \<Rightarrow> row list \<Rightarrow> nat \<Rightarrow> error + (row list \<times> nat)" where
  "resolve_rows translations [] acc matched_count = Inr (acc, matched_count)"
| "resolve_rows translations (r # rs) acc matched_count =
     (if 3 \<le> length r then
        (case getitem r 0 of
           Inl e \<Rightarrow> Inl e
         | Inr key \<Rightarrow>
             (case getitem r 1 of
                Inl e \<Rightarrow> Inl e
              | Inr original_text \<Rightarrow>
                  (case map_of translations key of
                     Some new_text \<Rightarrow>
                       resolve_rows translations rs
                         (acc @ [[key, original_text, new_text]]) (matched_count + 1)
                   | None \<Rightarrow>
                       (case getitem r 2 of
                          Inl e \<Rightarrow> Inl e
                        | Inr new_text \<Rightarrow>
                            resolve_rows translations rs
                              (acc @ [[key, original_text, new_text]]) matched_count))))
      else resolve_rows translations rs acc matched_count)"

text \<open>
  \<^verbatim>\<open>transcmd.py\<close>: \<^verbatim>\<open>for _ in range(3): line = fin.readline()\<close>, keeping the lines
  that are not empty; the text left in the file goes to the csv reader.
\<close>

fun read_header_lines :: "nat \<Rightarrow> string \<Rightarrow> string list \<Rightarrow> string list \<times> string" where
  "read_header_lines 0 text header_lines = (header_lines, text)"
| "read_header_lines (Suc n) text header_lines =
     (case readline text of
        (line, rest) \<Rightarrow>
          read_header_lines n rest
            (if line \<noteq> [] then header_lines @ [line] else header_lines))"

text \<open>
  What \<^verbatim>\<open>transcmd.py\<close> holds in memory when it has read the source:
  \<^verbatim>\<open>header_lines\<close>, \<^verbatim>\<open>data_rows\<close> and \<^verbatim>\<open>matched_count\<close>.
\<close>

definition read_source_cmd ::
  "translation_index \<Rightarrow> string \<Rightarrow> error + (string list \<times> row list \<times> nat)" where
  "read_source_cmd translations stored =
     (case read_header_lines 3 (universal_newlines stored) [] of
        (header_lines, rest) \<Rightarrow>
          (case csv_reader (file_lines rest) of
             (rows, reader_error) \<Rightarrow>
               (case resolve_rows translations rows [] 0 of
                  Inl e \<Rightarrow> Inl e
                | Inr (data_rows, matched_count) \<Rightarrow>
                    (case reader_error of
                       Some e \<Rightarrow> Inl (CsvError e)
                     | None \<Rightarrow> Inr (header_lines, data_rows, matched_count)))))"

text \<open>The numbers a run of the Merger prints.\<close>

record report =
  loaded :: nat
  preserved :: nat
  updated :: nat
  total :: nat

definition build_translation_file_cmd ::
  "fs \<Rightarrow> path \<Rightarrow> path \<Rightarrow> path \<Rightarrow> (error + report) \<times> fs" where
  "build_translation_file_cmd files source_csv mapping_csv output_csv =
     (case load_translations files mapping_csv of
        Inl e \<Rightarrow> (Inl e, files)
      | Inr translations \<Rightarrow>
          (case files source_csv of
             None \<Rightarrow> (Inl (FileNotFoundError source_csv), files)
           | Some stored \<Rightarrow>
               (case read_source_cmd translations stored of
                  Inl e \<Rightarrow> (Inl e, files)
                | Inr (header_lines, data_rows, matched_count) \<Rightarrow>
                    (Inr \<lparr>loaded = length translations, preserved = 3,
                          updated = matched_count, total = length data_rows\<rparr>,
                     files(output_csv \<mapsto> concat header_lines @ writerows data_rows)))))"

text \<open>
  \<^verbatim>\<open>translations.py\<close>: the three header records come from the csv reader, and a
  record that is not empty is kept in \<^verbatim>\<open>rows\<close>, before the data rows;
  \<^verbatim>\<open>header_count\<close> counts the kept ones. Everything is written by the csv writer.
\<close>

definition read_source_tr ::
  "translation_index \<Rightarrow> string \<Rightarrow> error + (row list \<times> nat \<times> nat)" where
  "read_source_tr translations stored =
     (case csv_reader (file_lines (universal_newlines stored)) of
        (records, reader_error) \<Rightarrow>
          (case filter (\<lambda>header_row. header_row \<noteq> []) (take 3 records) of
             header_rows \<Rightarrow>
               (case resolve_rows translations (drop 3 records) header_rows 0 of
                  Inl e \<Rightarrow> Inl e
                | Inr (rows, matched_count) \<Rightarrow>
                    (case reader_error of
                       Some e \<Rightarrow> Inl (CsvError e)
                     | None \<Rightarrow> Inr (rows, length header_rows, matched_count)))))"

definition build_translation_file_tr ::
  "fs \<Rightarrow> path \<Rightarrow> path \<Rightarrow> path \<Rightarrow> (error + report) \<times> fs" where
  "build_translation_file_tr files source_csv mapping_csv output_csv =
     (case load_translations files mapping_csv of
        Inl e \<Rightarrow> (Inl e, files)
      | Inr translations \<Rightarrow>
          (case files source_csv of
             None \<Rightarrow> (Inl (FileNotFoundError source_csv), files)
           | Some stored \<Rightarrow>
               (case read_source_tr translations stored of
                  Inl e \<Rightarrow> (Inl e, files)
                | Inr (rows, header_count, matched_count) \<Rightarrow>
                    (Inr \<lparr>loaded = length translations, preserved = header_count,
                          updated = matched_count, total = length rows\<rparr>,
                     files(output_csv \<mapsto> writerows rows)))))"

text \<open>
  The data rows each variant's reader hands to the loop, with the reader's error if it
  stops on one: in \<^verbatim>\<open>transcmd.py\<close> the records of the text that the three
  \<^verbatim>\<open>readline\<close> calls leave, in \<^verbatim>\<open>translations.py\<close> (and in the Extractor) the
  records after the first three.
\<close>

definition data_rows_cmd :: "string \<Rightarrow> row list \<times> csv_error option" where
  "data_rows_cmd stored =
     csv_reader (file_lines (snd (read_header_lines 3 (universal_newlines stored) [])))"

definition data_rows_tr :: "string \<Rightarrow> row list \<times> csv_error option" where
  "data_rows_tr stored =
     (case csv_reader (file_lines (universal_newlines stored)) of
        (records, reader_error) \<Rightarrow> (drop 3 records, reader_error))"

section \<open>The command lines\<close>

text \<open>
  What a run of \<^verbatim>\<open>main\<close> comes to: a message and an early return, or the call of one
  of the two operations with its result.
\<close>

datatype outcome =
  Usage
| MissingSource
| MissingArguments
| UnknownCommand string
| SourceNotFound path
| MappingNotFound path
| Created "error + nat"
| Built "error + report"

text \<open>
  \<^verbatim>\<open>transcmd.py\<close>: the arguments as \<^verbatim>\<open>argparse\<close> hands them over, the defaults of
  \<^verbatim>\<open>-o\<close> filled in.
\<close>

datatype args = NoCommand | Create path path | Build path path path

fun main_cmd :: "fs \<Rightarrow> args \<Rightarrow> outcome \<times> fs" where
  "main_cmd files NoCommand = (Usage, files)"
| "main_cmd files (Create source output) =
     (if files source = None then (SourceNotFound source, files)
      else (case create_mapping_file files source output of
              (res, files') \<Rightarrow> (Created res, files')))"
| "main_cmd files (Build source mapping output) =
     (if files source = None then (SourceNotFound source, files)
      else if files mapping = None then (MappingNotFound mapping, files)
      else (case build_translation_file_cmd files source mapping output of
              (res, files') \<Rightarrow> (Built res, files')))"

text \<open>
  \<^verbatim>\<open>translations.py\<close> reads \<^verbatim>\<open>sys.argv\<close> itself and lowers the command word
  (\<^verbatim>\<open>str.lower\<close>, here on the characters below 256).
\<close>

definition lower_char :: "char \<Rightarrow> char" where
  "lower_char c =
     (let n = (of_char c :: nat)
      in if (65 \<le> n \<and> n \<le> 90) \<or> (192 \<le> n \<and> n \<le> 214) \<or> (216 \<le> n \<and> n \<le> 222)
         then char_of (n + 32) else c)"

definition lower :: "string \<Rightarrow> string" where
  "lower s = map lower_char s"

definition main_tr :: "fs \<Rightarrow> string list \<Rightarrow> outcome \<times> fs" where
  "main_tr files argv =
     (if length argv < 2 then (Usage, files)
      else
        (let command = lower (argv ! 1) in
         if command = ''create'' then
           (if length argv < 3 then (MissingSource, files)
            else
              (let source_csv = argv ! 2;
                   mapping_csv = (if 3 < length argv then argv ! 3
                                  else ''translations_to_edit.csv'')
               in if files source_csv = None then (SourceNotFound source_csv, files)
                  else (case create_mapping_file files source_csv mapping_csv of
                          (res, files') \<Rightarrow> (Created res, files'))))
         else if command = ''build'' then
           (if length argv < 4 then (MissingArguments, files)
            else
              (let source_csv = argv ! 2;
                   mapping_csv = argv ! 3;
                   output_csv = (if 4 < length argv then argv ! 4 else ''#GF_custom.csv'')
               in if files source_csv = None then (SourceNotFound source_csv, files)
                  else if files mapping_csv = None then (MappingNotFound mapping_csv, files)
                  else (case build_translation_file_tr files source_csv mapping_csv output_csv of
                          (res, files') \<Rightarrow> (Built res, files'))))
         else (UnknownCommand command, files)))"

section \<open>Notions used in the statements and proofs\<close>

text \<open>
  A line is a complete record when the reader, started afresh on it, is back at the
  start of a record at its end: no quoted field is left open and no error is raised.
\<close>

definition complete_record :: "string \<Rightarrow> bool" where
  "complete_record l =
     (case process_line parse_reset l of
        Inl e \<Rightarrow> False
      | Inr r \<Rightarrow> state r = START_RECORD)"

text \<open>
  The fields the reader can yield from a text file: free of \<^verbatim>\<open>\r\<close> and within the
  field size limit. The reader keeps this invariant.
\<close>

definition field_ok :: "string \<Rightarrow> bool" where
  "field_ok f \<longleftrightarrow> CR \<notin> set f \<and> length f \<le> field_limit"

definition reader_ok :: "reader \<Rightarrow> bool" where
  "reader_ok r \<longleftrightarrow> (\<forall>f \<in> set (rec_fields r). field_ok f) \<and> field_ok (field r)"


section \<open>Example files\<close>

text \<open>A small source table and a mapping file with a repeated key, for concrete runs.\<close>

abbreviation example_source :: string where
  "example_source \<equiv> ''Language'' @ [LF] @ [LF] @ ''NormalText'' @ [LF] @
     ''k1,o1,f1'' @ [LF] @ ''k2,o2'' @ [LF] @ ''k3,o3,f3'' @ [LF]"

abbreviation example_mapping :: string where
  "example_mapping \<equiv> ''k1,t1'' @ [LF] @ ''k1,t2'' @ [LF]"

abbreviation example_files :: fs where
  "example_files \<equiv> map_of [(''source.csv'', example_source), (''mapping.csv'', example_mapping)]"


text \<open>A source whose third header record is a quoted field that runs over a line break.\<close>

abbreviation split_header_source :: string where
  "split_header_source \<equiv> ''a'' @ [LF] @ ''b'' @ [LF] @ [DQ] @ ''c'' @ [LF] @
     ''k0,o0,f0'' @ [DQ] @ '',z'' @ [LF] @ ''k1,o1,f1'' @ [LF]"


text \<open>A source in which two data rows carry the same key.\<close>

abbreviation repeated_key_source :: string where
  "repeated_key_source \<equiv> ''H1'' @ [LF] @ ''H2'' @ [LF] @ ''H3'' @ [LF] @
     ''k,a,a'' @ [LF] @ ''k,b,b'' @ [LF]"

text \<open>A source with Windows line ends.\<close>

abbreviation crlf_source :: string where
  "crlf_source \<equiv> ''Language'' @ [CR, LF] @ [CR, LF] @ ''NormalText'' @ [CR, LF] @
     ''k1,o1,f1'' @ [CR, LF]"
text \<open>
  A source whose third header record is a quoted field closed on the fourth line, with
  one data row after it.
\<close>

abbreviation closed_header_source :: string where
  "closed_header_source \<equiv> ''a'' @ [LF] @ ''b'' @ [LF] @ [DQ] @ ''c'' @ [LF] @
     [DQ] @ '',z'' @ [LF] @ ''k1,o1,f1'' @ [LF]"

section \<open>The loops and the two phases of the Merger\<close>

lemma getitem_in_range: "i < length r \<Longrightarrow> getitem r i = Inr (r ! i)"
  by (simp add: getitem_def)

lemma resolve_rows_eq:
  "resolve_rows tr rows acc m =
     Inr (acc @ map (\<lambda>r. [r ! 0, r ! 1, case map_of tr (r ! 0) of Some t \<Rightarrow> t | None \<Rightarrow> r ! 2])
                  (filter (\<lambda>r. 3 \<le> length r) rows),
          m + length (filter (\<lambda>r. 3 \<le> length r \<and> map_of tr (r ! 0) \<noteq> None) rows))"
  by (induction rows arbitrary: acc m) (auto simp: getitem_def split: option.splits)

lemma extract_rows_eq:
  "extract_rows rows out n =
     (out @ writerows (map (\<lambda>r. [r ! 0, r ! 1]) (filter (\<lambda>r. 3 \<le> length r) rows)),
      n + length (filter (\<lambda>r. 3 \<le> length r) rows), None)"
  by (induction rows arbitrary: out n) (auto simp: getitem_def writerows_def)

lemma load_rows_eq:
  "load_rows rows tr =
     Inr (fold (\<lambda>r t. if 2 \<le> length r then AList.update (r ! 0) (r ! 1) t else t) rows tr)"
  by (induction rows arbitrary: tr) (auto simp: getitem_def)

lemma map_of_fold_update:
  "map_of (fold (\<lambda>r t. if 2 \<le> length r then AList.update (r ! 0) (r ! 1) t else t) rows tr) k =
     (case filter (\<lambda>r. 2 \<le> length r \<and> r ! 0 = k) rows of
        [] \<Rightarrow> map_of tr k
      | x # xs \<Rightarrow> Some (last (x # xs) ! 1))"
proof (induction rows arbitrary: tr)
  case Nil
  then show ?case by simp
next
  case (Cons r rows)
  show ?case
    by (simp add: Cons.IH update_conv split: list.splits)
qed

lemma read_source_cmd_Inr:
  assumes "read_source_cmd tr stored = Inr (hl, dr, mc)"
  shows "hl = fst (read_header_lines 3 (universal_newlines stored) [])"
    and "snd (data_rows_cmd stored) = None"
    and "dr = map (\<lambda>r. [r ! 0, r ! 1, case map_of tr (r ! 0) of Some t \<Rightarrow> t | None \<Rightarrow> r ! 2])
                  (filter (\<lambda>r. 3 \<le> length r) (fst (data_rows_cmd stored)))"
    and "mc = length (filter (\<lambda>r. 3 \<le> length r \<and> map_of tr (r ! 0) \<noteq> None) (fst (data_rows_cmd stored)))"
  using assms
  by (auto simp: read_source_cmd_def data_rows_cmd_def resolve_rows_eq split: prod.splits option.splits)

lemma read_source_tr_Inr:
  assumes "read_source_tr tr stored = Inr (rows, hc, mc)"
  shows "hc = length (filter (\<lambda>h. h \<noteq> []) (take 3 (fst (csv_reader (file_lines (universal_newlines stored))))))"
    and "snd (data_rows_tr stored) = None"
    and "rows = filter (\<lambda>h. h \<noteq> []) (take 3 (fst (csv_reader (file_lines (universal_newlines stored))))) @
            map (\<lambda>r. [r ! 0, r ! 1, case map_of tr (r ! 0) of Some t \<Rightarrow> t | None \<Rightarrow> r ! 2])
                  (filter (\<lambda>r. 3 \<le> length r) (fst (data_rows_tr stored)))"
    and "mc = length (filter (\<lambda>r. 3 \<le> length r \<and> map_of tr (r ! 0) \<noteq> None) (fst (data_rows_tr stored)))"
  using assms
  by (auto simp: read_source_tr_def data_rows_tr_def resolve_rows_eq split: prod.splits option.splits)

lemma build_cmd_Inr:
  assumes "build_translation_file_cmd files s m out = (Inr rep, files')"
  shows "\<exists>tr stored hl dr.
           load_translations files m = Inr tr \<and> files s = Some stored \<and>
           read_source_cmd tr stored = Inr (hl, dr, updated rep) \<and>
           loaded rep = length tr \<and> total rep = length dr \<and>
           files' = files(out \<mapsto> concat hl @ writerows dr)"
  using assms
  by (auto simp: build_translation_file_cmd_def split: sum.splits option.splits prod.splits)

lemma build_tr_Inr:
  assumes "build_translation_file_tr files s m out = (Inr rep, files')"
  shows "\<exists>tr stored rows.
           load_translations files m = Inr tr \<and> files s = Some stored \<and>
           read_source_tr tr stored = Inr (rows, preserved rep, updated rep) \<and>
           loaded rep = length tr \<and> total rep = length rows \<and>
           files' = files(out \<mapsto> writerows rows)"
  using assms
  by (auto simp: build_translation_file_tr_def split: sum.splits option.splits prod.splits)

lemma build_cmd_Inl:
  "build_translation_file_cmd files s m out = (Inl e, files') \<Longrightarrow> files' = files"
  by (auto simp: build_translation_file_cmd_def split: sum.splits option.splits prod.splits)

lemma build_tr_Inl:
  "build_translation_file_tr files s m out = (Inl e, files') \<Longrightarrow> files' = files"
  by (auto simp: build_translation_file_tr_def split: sum.splits option.splits prod.splits)

lemmas run_defs = parse_process_char.simps csv_reader_def parse_reset_def parse_save_field_def parse_add_char_def
  field_limit_def getitem_def load_translations_def read_source_cmd_def read_source_tr_def
  build_translation_file_cmd_def build_translation_file_tr_def create_mapping_file_def
  data_rows_cmd_def data_rows_tr_def writerow_def writerows_def quote_field_def
  numeral_3_eq_3

lemma example_load:
  "load_translations example_files ''mapping.csv'' = Inr [(''k1'', ''t2'')]"
  by (simp add: run_defs)

lemma example_data_rows_cmd:
  "data_rows_cmd example_source = ([[''k1'', ''o1'', ''f1''], [''k2'', ''o2''], [''k3'', ''o3'', ''f3'']], None)"
  by (simp add: run_defs)

lemma example_data_rows_tr:
  "data_rows_tr example_source = ([[''k1'', ''o1'', ''f1''], [''k2'', ''o2''], [''k3'', ''o3'', ''f3'']], None)"
  by (simp add: run_defs)

lemma example_build_cmd:
  "fst (build_translation_file_cmd example_files ''source.csv'' ''mapping.csv'' ''out.csv'') =
     Inr \<lparr>loaded = 1, preserved = 3, updated = 1, total = 2\<rparr>"
  by (simp add: run_defs)

lemma example_build_tr:
  "fst (build_translation_file_tr example_files ''source.csv'' ''mapping.csv'' ''out.csv'') =
     Inr \<lparr>loaded = 1, preserved = 2, updated = 1, total = 4\<rparr>"
  by (simp add: run_defs)


section \<open>Lines, header lines and complete records\<close>

lemma universal_newlines_Cons:
  "c \<noteq> CR \<Longrightarrow> universal_newlines (c # cs) = c # universal_newlines cs"
  by (cases cs) simp_all

lemma universal_newlines_no_CR: "CR \<notin> set (universal_newlines s)"
  by (induction s rule: universal_newlines.induct) auto

lemma universal_newlines_append:
  "CR \<notin> set a \<Longrightarrow> universal_newlines (a @ b) = a @ universal_newlines b"
  by (induction a) (auto simp: universal_newlines_Cons)

lemma universal_newlines_id: "CR \<notin> set s \<Longrightarrow> universal_newlines s = s"
  using universal_newlines_append [of s "[]"] by simp

lemma file_lines_Nil_iff: "file_lines t = [] \<longleftrightarrow> t = []"
  by (cases t) (auto split: list.splits)

lemma concat_file_lines: "concat (file_lines t) = t"
  by (induction t) (auto split: list.splits)

lemma file_lines_readline:
  "t \<noteq> [] \<Longrightarrow> file_lines t = fst (readline t) # file_lines (snd (readline t))"
proof (induction t)
  case Nil
  then show ?case by simp
next
  case (Cons c cs)
  show ?case
  proof (cases "cs = []")
    case True
    then show ?thesis by simp
  next
    case False
    then show ?thesis using Cons.IH
      by (auto split: prod.splits list.splits)
  qed
qed

lemma readline_nonempty: "t \<noteq> [] \<Longrightarrow> fst (readline t) \<noteq> []"
  by (cases t) (auto split: prod.splits)

lemma read_header_lines_eq:
  "read_header_lines n t hs = (hs @ take n (file_lines t), concat (drop n (file_lines t)))"
proof (induction n arbitrary: t hs)
  case 0
  then show ?case by (simp add: concat_file_lines)
next
  case (Suc n)
  show ?case
  proof (cases "t = []")
    case True
    then show ?thesis by (simp add: Suc.IH)
  next
    case False
    obtain l rest where lr: "readline t = (l, rest)" by (cases "readline t")
    have "file_lines t = l # file_lines rest" "l \<noteq> []"
      using file_lines_readline [OF False] readline_nonempty [OF False] lr by simp_all
    then show ?thesis using lr by (simp add: Suc.IH)
  qed
qed

lemma file_lines_concat_drop:
  "file_lines (concat (drop n (file_lines t))) = drop n (file_lines t)"
proof (induction n arbitrary: t)
  case 0
  then show ?case by (simp add: concat_file_lines)
next
  case (Suc n)
  show ?case
  proof (cases "t = []")
    case True
    then show ?thesis by simp
  next
    case False
    then show ?thesis using Suc.IH [of "snd (readline t)"] file_lines_readline [OF False]
      by simp
  qed
qed

lemma data_rows_cmd_eq:
  "data_rows_cmd stored = csv_reader (drop 3 (file_lines (universal_newlines stored)))"
  by (simp add: data_rows_cmd_def read_header_lines_eq file_lines_concat_drop)

lemma read_rows_drop_complete:
  assumes "\<forall>l \<in> set (take n ls). complete_record l"
  shows "read_rows parse_reset (drop n ls) =
           (drop n (fst (read_rows parse_reset ls)), snd (read_rows parse_reset ls))"
  using assms
proof (induction n arbitrary: ls)
  case 0
  then show ?case by simp
next
  case (Suc n)
  show ?case
  proof (cases ls)
    case Nil
    then show ?thesis by (simp add: parse_reset_def)
  next
    case (Cons l ls')
    from Suc.prems Cons have c: "complete_record l"
      and r: "\<forall>l \<in> set (take n ls'). complete_record l" by simp_all
    from c obtain r' where p: "process_line parse_reset l = Inr r'" "state r' = START_RECORD"
      by (auto simp: complete_record_def split: sum.splits)
    have "read_rows parse_reset ls = yield (rec_fields r') (read_rows parse_reset ls')"
      using p Cons by simp
    then show ?thesis using Suc.IH [OF r] Cons
      by (cases "read_rows parse_reset ls'") simp
  qed
qed

lemma data_rows_agree:
  assumes "\<forall>l \<in> set (take 3 (file_lines (universal_newlines stored))). complete_record l"
  shows "data_rows_cmd stored = data_rows_tr stored"
  using read_rows_drop_complete [OF assms]
  by (simp add: data_rows_cmd_eq data_rows_tr_def csv_reader_def split: prod.splits)

lemma read_source_cmd_eq:
  "read_source_cmd index stored =
     (case snd (data_rows_cmd stored) of
        Some e \<Rightarrow> Inl (CsvError e)
      | None \<Rightarrow>
          Inr (take 3 (file_lines (universal_newlines stored)),
               map (\<lambda>r. [r ! 0, r ! 1, case map_of index (r ! 0) of Some t \<Rightarrow> t | None \<Rightarrow> r ! 2])
                 (filter (\<lambda>r. 3 \<le> length r) (fst (data_rows_cmd stored))),
               length (filter (\<lambda>r. 3 \<le> length r \<and> map_of index (r ! 0) \<noteq> None)
                 (fst (data_rows_cmd stored)))))"
  by (simp add: read_source_cmd_def data_rows_cmd_def read_header_lines_eq resolve_rows_eq
      split: prod.splits option.splits)

lemma read_source_tr_eq:
  "read_source_tr index stored =
     (case snd (data_rows_tr stored) of
        Some e \<Rightarrow> Inl (CsvError e)
      | None \<Rightarrow>
          Inr (filter (\<lambda>h. h \<noteq> []) (take 3 (fst (csv_reader (file_lines (universal_newlines stored))))) @
               map (\<lambda>r. [r ! 0, r ! 1, case map_of index (r ! 0) of Some t \<Rightarrow> t | None \<Rightarrow> r ! 2])
                 (filter (\<lambda>r. 3 \<le> length r) (fst (data_rows_tr stored))),
               length (filter (\<lambda>h. h \<noteq> []) (take 3 (fst (csv_reader (file_lines (universal_newlines stored)))))),
               length (filter (\<lambda>r. 3 \<le> length r \<and> map_of index (r ! 0) \<noteq> None)
                 (fst (data_rows_tr stored)))))"
  by (simp add: read_source_tr_def data_rows_tr_def resolve_rows_eq
      split: prod.splits option.splits)


section \<open>Reading back what the writer wrote\<close>

lemma read_text_Cons:
  "read_rows r (file_lines (c # cs)) =
     (case parse_process_char r (Some c) of
        Inl e \<Rightarrow> ([], Some e)
      | Inr r1 \<Rightarrow>
          if c = LF \<or> cs = [] then
            (case parse_process_char r1 None of
               Inl e \<Rightarrow> ([], Some e)
             | Inr r2 \<Rightarrow>
                 if state r2 = START_RECORD
                 then yield (rec_fields r2) (read_rows parse_reset (file_lines cs))
                 else read_rows r2 (file_lines cs))
          else read_rows r1 (file_lines cs))"
proof (cases "c = LF \<or> cs = []")
  case True
  then show ?thesis
    by (auto split: sum.splits)
next
  case False
  then obtain l ls where "file_lines cs = l # ls"
    using file_lines_Nil_iff [of cs] by (cases "file_lines cs") auto
  then show ?thesis using False
    by (auto split: sum.splits)
qed



lemma read_quoted_content:
  assumes "state r = IN_QUOTED_FIELD"
    and "length (field r) + length f \<le> field_limit"
    and "rest \<noteq> []"
  shows "read_rows r (file_lines (concat (map (\<lambda>c. if c = DQ then [DQ, DQ] else [c]) f) @ DQ # rest)) =
           read_rows (r\<lparr>state := QUOTE_IN_QUOTED_FIELD, field := field r @ f\<rparr>) (file_lines rest)"
  using assms
proof (induction f arbitrary: r)
  case Nil
  then show ?case
    by (cases r) (simp add: read_text_Cons parse_process_char.simps del: file_lines.simps(2))
next
  case (Cons c f)
  let ?tail = "concat (map (\<lambda>c. if c = DQ then [DQ, DQ] else [c]) f) @ DQ # rest"
  have len: "length (field r) < field_limit" using Cons.prems(2) by simp
  show ?case
  proof (cases "c = DQ")
    case True
    let ?r' = "r\<lparr>field := field r @ [DQ]\<rparr>"
    have "read_rows r (file_lines (DQ # DQ # ?tail)) = read_rows ?r' (file_lines ?tail)"
      using Cons.prems(1) len
      by (cases r) (simp add: read_text_Cons parse_process_char.simps parse_add_char_def del: file_lines.simps(2))
    moreover have "read_rows ?r' (file_lines ?tail) =
        read_rows (?r'\<lparr>state := QUOTE_IN_QUOTED_FIELD, field := field ?r' @ f\<rparr>) (file_lines rest)"
      by (rule Cons.IH) (use Cons.prems in simp_all)
    ultimately show ?thesis using True by simp
  next
    case False
    let ?r' = "r\<lparr>field := field r @ [c]\<rparr>"
    have "read_rows r (file_lines (c # ?tail)) = read_rows ?r' (file_lines ?tail)"
      using Cons.prems(1) len False
      by (cases r) (simp add: read_text_Cons parse_process_char.simps parse_add_char_def del: file_lines.simps(2))
    moreover have "read_rows ?r' (file_lines ?tail) =
        read_rows (?r'\<lparr>state := QUOTE_IN_QUOTED_FIELD, field := field ?r' @ f\<rparr>) (file_lines rest)"
      by (rule Cons.IH) (use Cons.prems in simp_all)
    ultimately show ?thesis using False by simp
  qed
qed

lemma read_quoted_field:
  assumes "state r = START_RECORD \<or> state r = START_FIELD"
    and "field r = []"
    and "length f \<le> field_limit"
    and "rest \<noteq> []"
  shows "read_rows r (file_lines (quote_field f @ rest)) =
           read_rows (r\<lparr>state := QUOTE_IN_QUOTED_FIELD, field := f\<rparr>) (file_lines rest)"
proof -
  let ?q = "r\<lparr>state := IN_QUOTED_FIELD\<rparr>"
  have "read_rows r (file_lines (quote_field f @ rest)) =
          read_rows ?q (file_lines (concat (map (\<lambda>c. if c = DQ then [DQ, DQ] else [c]) f) @ DQ # rest))"
    using assms(1)
    by (cases r) (auto simp: quote_field_def read_text_Cons parse_process_char.simps simp del: file_lines.simps(2))
  also have "\<dots> = read_rows (?q\<lparr>state := QUOTE_IN_QUOTED_FIELD, field := field ?q @ f\<rparr>) (file_lines rest)"
    by (rule read_quoted_content) (use assms in simp_all)
  finally show ?thesis using assms(2) by simp
qed

lemma read_written_fields:
  assumes "state r = START_RECORD \<or> state r = START_FIELD"
    and "field r = []"
    and "\<forall>g \<in> set (f # fs). length g \<le> field_limit"
  shows "read_rows r (file_lines (join_fields (map quote_field (f # fs)) @ LF # rest)) =
           yield (rec_fields r @ f # fs) (read_rows parse_reset (file_lines rest))"
  using assms
proof (induction fs arbitrary: f r)
  case Nil
  let ?q = "r\<lparr>state := QUOTE_IN_QUOTED_FIELD, field := f\<rparr>"
  have "read_rows r (file_lines (quote_field f @ LF # rest)) = read_rows ?q (file_lines (LF # rest))"
    by (rule read_quoted_field) (use Nil in simp_all)
  also have "\<dots> = yield (rec_fields r @ [f]) (read_rows parse_reset (file_lines rest))"
    by (cases r) (simp add: read_text_Cons parse_process_char.simps parse_save_field_def del: file_lines.simps(2))
  finally show ?case by simp
next
  case (Cons g fs)
  let ?q = "r\<lparr>state := QUOTE_IN_QUOTED_FIELD, field := f\<rparr>"
  let ?n = "r\<lparr>state := START_FIELD, rec_fields := rec_fields r @ [f], field := []\<rparr>"
  let ?more = "join_fields (map quote_field (g # fs)) @ LF # rest"
  have "read_rows r (file_lines (quote_field f @ COMMA # ?more)) =
          read_rows ?q (file_lines (COMMA # ?more))"
    by (rule read_quoted_field) (use Cons.prems in simp_all)
  also have "\<dots> = read_rows ?n (file_lines ?more)"
    by (cases r) (simp add: read_text_Cons parse_process_char.simps parse_save_field_def del: file_lines.simps(2))
  also have "\<dots> = yield (rec_fields ?n @ g # fs) (read_rows parse_reset (file_lines rest))"
    by (rule Cons.IH) (use Cons.prems in simp_all)
  finally show ?case by simp
qed

lemma read_written_rows:
  assumes "\<forall>row \<in> set rows. row \<noteq> [] \<and> (\<forall>g \<in> set row. length g \<le> field_limit)"
  shows "read_rows parse_reset
           (file_lines (concat (map (\<lambda>row. join_fields (map quote_field row) @ [LF]) rows))) =
         (rows, None)"
  using assms
proof (induction rows)
  case Nil
  then show ?case by (simp add: parse_reset_def)
next
  case (Cons row rows)
  then obtain f fs where row: "row = f # fs" by (cases row) auto
  let ?rest = "concat (map (\<lambda>row. join_fields (map quote_field row) @ [LF]) rows)"
  have "read_rows parse_reset (file_lines (join_fields (map quote_field (f # fs)) @ LF # ?rest)) =
          yield (rec_fields parse_reset @ f # fs) (read_rows parse_reset (file_lines ?rest))"
    by (rule read_written_fields) (use Cons.prems row in \<open>simp_all add: parse_reset_def\<close>)
  then show ?case using Cons row by (simp add: parse_reset_def)
qed

section \<open>The fields the reader yields\<close>

lemma parse_add_char_ok:
  "reader_ok r \<Longrightarrow> c \<noteq> CR \<Longrightarrow> parse_add_char r c = Inr r' \<Longrightarrow> reader_ok r'"
  by (auto simp: parse_add_char_def reader_ok_def field_ok_def split: if_splits)

lemma parse_save_field_ok: "reader_ok r \<Longrightarrow> reader_ok (parse_save_field r)"
  by (auto simp: parse_save_field_def reader_ok_def field_ok_def)

lemma state_update_ok: "reader_ok r \<Longrightarrow> reader_ok (r\<lparr>state := s\<rparr>)"
  by (simp add: reader_ok_def)

lemma start_field_ok:
  assumes "reader_ok r" and "ev \<noteq> Some CR" and "start_field r ev = Inr r'"
  shows "reader_ok r'"
proof (cases ev)
  case None
  then show ?thesis using assms by (auto intro: state_update_ok parse_save_field_ok)
next
  case (Some c)
  then have c: "c \<noteq> CR" using assms(2) by simp
  show ?thesis using assms(1,3) c Some
    by (auto split: if_splits sum.splits
        intro: state_update_ok parse_save_field_ok parse_add_char_ok)
qed


lemma parse_process_char_ok:
  assumes "reader_ok r" and "ev \<noteq> Some CR" and "parse_process_char r ev = Inr r'"
  shows "reader_ok r'"
proof (cases "state r")
  case START_RECORD
  have s: "reader_ok (r\<lparr>state := START_FIELD\<rparr>)" using assms(1) by (rule state_update_ok)
  show ?thesis using assms START_RECORD start_field_ok [OF s assms(2)]
    by (cases ev) (auto simp: parse_process_char.simps split: if_splits intro: state_update_ok)
next
  case START_FIELD
  then show ?thesis using assms start_field_ok [of r ev r']
    by (simp add: parse_process_char.simps)
next
  case IN_FIELD
  then show ?thesis using assms
    by (cases ev) (auto simp: parse_process_char.simps split: if_splits
        intro: state_update_ok parse_save_field_ok parse_add_char_ok)
next
  case IN_QUOTED_FIELD
  then show ?thesis using assms
    by (cases ev) (auto simp: parse_process_char.simps split: if_splits
        intro: state_update_ok parse_save_field_ok parse_add_char_ok)
next
  case QUOTE_IN_QUOTED_FIELD
  then show ?thesis using assms
    by (cases ev) (auto simp: parse_process_char.simps split: if_splits sum.splits
        intro: state_update_ok parse_save_field_ok parse_add_char_ok)
next
  case EAT_CRNL
  then show ?thesis using assms
    by (cases ev) (auto simp: parse_process_char.simps split: if_splits
        intro: state_update_ok)
qed


lemma process_line_ok:
  "reader_ok r \<Longrightarrow> CR \<notin> set l \<Longrightarrow> process_line r l = Inr r' \<Longrightarrow> reader_ok r'"
proof (induction l arbitrary: r)
  case Nil
  then show ?case using parse_process_char_ok [of r None r'] by simp
next
  case (Cons c l)
  from Cons.prems(3) obtain r1 where s: "parse_process_char r (Some c) = Inr r1"
    and p: "process_line r1 l = Inr r'"
    by (auto split: sum.splits)
  have "Some c \<noteq> Some CR" using Cons.prems(2) by auto
  then have "reader_ok r1" using parse_process_char_ok [OF Cons.prems(1) _ s] by blast
  moreover have "CR \<notin> set l" using Cons.prems(2) by simp
  ultimately show ?case using p by (rule Cons.IH)
qed

lemma reset_ok: "reader_ok parse_reset"
  by (simp add: parse_reset_def reader_ok_def field_ok_def)

lemma read_rows_ok:
  assumes "reader_ok r" and "\<forall>l \<in> set ls. CR \<notin> set l"
  shows "\<forall>row \<in> set (fst (read_rows r ls)). \<forall>f \<in> set row. field_ok f"
  using assms
proof (induction ls arbitrary: r)
  case Nil
  have "reader_ok (parse_save_field r)" using Nil(1) by (rule parse_save_field_ok)
  then show ?case by (simp add: reader_ok_def)
next
  case (Cons l ls)
  have rest: "\<forall>l \<in> set ls. CR \<notin> set l" using Cons.prems(2) by simp
  show ?case
  proof (cases "process_line r l")
    case (Inl e)
    then show ?thesis by simp
  next
    case (Inr r')
    have "CR \<notin> set l" using Cons.prems(2) by simp
    then have ok: "reader_ok r'" using process_line_ok [OF Cons.prems(1) _ Inr] by blast
    show ?thesis
    proof (cases "state r' = START_RECORD")
      case True
      obtain rs e where rr: "read_rows parse_reset ls = (rs, e)"
        by (cases "read_rows parse_reset ls")
      have "\<forall>row \<in> set rs. \<forall>f \<in> set row. field_ok f"
        using Cons.IH [OF reset_ok rest] rr by simp
      moreover have "\<forall>f \<in> set (rec_fields r'). field_ok f"
        using ok by (simp add: reader_ok_def)
      ultimately show ?thesis using Inr True rr by simp
    next
      case False
      then show ?thesis using Inr Cons.IH [OF ok rest] by simp
    qed
  qed
qed

lemma csv_reader_text_ok:
  "\<forall>row \<in> set (fst (csv_reader (file_lines (universal_newlines t)))). \<forall>f \<in> set row. field_ok f"
proof -
  have "\<forall>l \<in> set (file_lines (universal_newlines t)). CR \<notin> set l"
  proof
    fix l assume "l \<in> set (file_lines (universal_newlines t))"
    then have "set l \<subseteq> set (concat (file_lines (universal_newlines t)))" by auto
    then show "CR \<notin> set l"
      using universal_newlines_no_CR [of t] unfolding concat_file_lines by blast
  qed
  then show ?thesis
    unfolding csv_reader_def by (rule read_rows_ok [OF reset_ok])
qed


lemma set_join_fields: "set (join_fields fs) \<subseteq> insert COMMA (\<Union>(set ` set fs))"
  by (induction fs rule: join_fields.induct) auto

lemma set_quote_field: "set (quote_field f) = insert DQ (set f)"
  by (auto simp: quote_field_def split: if_splits)

lemma written_row_no_CR:
  assumes "\<forall>f \<in> set row. CR \<notin> set f"
  shows "CR \<notin> set (join_fields (map quote_field row))"
proof
  assume "CR \<in> set (join_fields (map quote_field row))"
  then have "CR \<in> insert COMMA (\<Union>(set ` set (map quote_field row)))"
    using set_join_fields [of "map quote_field row"] by blast
  then obtain f where "f \<in> set row" "CR \<in> set (quote_field f)" by auto
  then show False using assms by (simp add: set_quote_field)
qed

lemma universal_newlines_writerows:
  assumes "\<forall>row \<in> set rows. \<forall>f \<in> set row. CR \<notin> set f"
  shows "universal_newlines (writerows rows) =
           concat (map (\<lambda>row. join_fields (map quote_field row) @ [LF]) rows)"
  using assms
proof (induction rows)
  case Nil
  then show ?case by (simp add: writerows_def)
next
  case (Cons row rows)
  have "CR \<notin> set (join_fields (map quote_field row))"
    by (rule written_row_no_CR) (use Cons.prems in simp)
  then have "universal_newlines (join_fields (map quote_field row) @ CR # LF # writerows rows) =
      join_fields (map quote_field row) @ LF # universal_newlines (writerows rows)"
    by (simp add: universal_newlines_append)
  moreover have "universal_newlines (writerows rows) =
      concat (map (\<lambda>row. join_fields (map quote_field row) @ [LF]) rows)"
    by (rule Cons.IH) (use Cons.prems in simp)
  ultimately show ?case by (simp add: writerows_def writerow_def)
qed

lemma read_back_written:
  assumes "\<forall>row \<in> set rows. row \<noteq> [] \<and> (\<forall>f \<in> set row. field_ok f)"
  shows "csv_reader (file_lines (universal_newlines (writerows rows))) = (rows, None)"
proof -
  have "universal_newlines (writerows rows) =
          concat (map (\<lambda>row. join_fields (map quote_field row) @ [LF]) rows)"
    by (rule universal_newlines_writerows) (use assms in \<open>auto simp: field_ok_def\<close>)
  moreover have "\<forall>row \<in> set rows. row \<noteq> [] \<and> (\<forall>g \<in> set row. length g \<le> field_limit)"
    using assms by (auto simp: field_ok_def)
  ultimately show ?thesis
    unfolding csv_reader_def using read_written_rows [of rows] by simp
qed

section \<open>Both operations in closed form\<close>

lemma writerows_append: "writerows (a @ b) = writerows a @ writerows b"
  by (simp add: writerows_def)

lemma build_cmd_eq:
  "build_translation_file_cmd fs source_csv mapping_csv output_csv =
     (case load_translations fs mapping_csv of
        Inl e \<Rightarrow> (Inl e, fs)
      | Inr index \<Rightarrow>
          (case fs source_csv of
             None \<Rightarrow> (Inl (FileNotFoundError source_csv), fs)
           | Some stored \<Rightarrow>
               (case snd (data_rows_cmd stored) of
                  Some e \<Rightarrow> (Inl (CsvError e), fs)
                | None \<Rightarrow>
                    (Inr \<lparr>loaded = length index, preserved = 3,
                          updated = length (filter (\<lambda>r. 3 \<le> length r \<and> map_of index (r ! 0) \<noteq> None)
                             (fst (data_rows_cmd stored))),
                          total = length (filter (\<lambda>r. 3 \<le> length r) (fst (data_rows_cmd stored)))\<rparr>,
                     fs(output_csv \<mapsto>
                        concat (take 3 (file_lines (universal_newlines stored))) @
                        writerows (map (\<lambda>r. [r ! 0, r ! 1,
                                     case map_of index (r ! 0) of Some t \<Rightarrow> t | None \<Rightarrow> r ! 2])
                          (filter (\<lambda>r. 3 \<le> length r) (fst (data_rows_cmd stored)))))))))"
  by (simp add: build_translation_file_cmd_def read_source_cmd_eq
      split: sum.splits option.splits)

lemma build_tr_eq:
  "build_translation_file_tr fs source_csv mapping_csv output_csv =
     (case load_translations fs mapping_csv of
        Inl e \<Rightarrow> (Inl e, fs)
      | Inr index \<Rightarrow>
          (case fs source_csv of
             None \<Rightarrow> (Inl (FileNotFoundError source_csv), fs)
           | Some stored \<Rightarrow>
               (case snd (data_rows_tr stored) of
                  Some e \<Rightarrow> (Inl (CsvError e), fs)
                | None \<Rightarrow>
                    (Inr \<lparr>loaded = length index,
                          preserved = length (filter (\<lambda>h. h \<noteq> [])
                             (take 3 (fst (csv_reader (file_lines (universal_newlines stored)))))),
                          updated = length (filter (\<lambda>r. 3 \<le> length r \<and> map_of index (r ! 0) \<noteq> None)
                             (fst (data_rows_tr stored))),
                          total = length (filter (\<lambda>h. h \<noteq> [])
                             (take 3 (fst (csv_reader (file_lines (universal_newlines stored)))))) +
                             length (filter (\<lambda>r. 3 \<le> length r) (fst (data_rows_tr stored)))\<rparr>,
                     fs(output_csv \<mapsto>
                        writerows (filter (\<lambda>h. h \<noteq> [])
                             (take 3 (fst (csv_reader (file_lines (universal_newlines stored)))))) @
                        writerows (map (\<lambda>r. [r ! 0, r ! 1,
                                     case map_of index (r ! 0) of Some t \<Rightarrow> t | None \<Rightarrow> r ! 2])
                          (filter (\<lambda>r. 3 \<le> length r) (fst (data_rows_tr stored)))))))))"
  by (simp add: build_translation_file_tr_def read_source_tr_eq writerows_append
      split: sum.splits option.splits)


lemma create_mapping_file_eq:
  "create_mapping_file fs source_csv mapping_csv =
     (case fs source_csv of
        None \<Rightarrow> (Inl (FileNotFoundError source_csv), fs)
      | Some stored \<Rightarrow>
          (case snd (data_rows_tr (if mapping_csv = source_csv then [] else stored)) of
             Some e \<Rightarrow> Inl (CsvError e)
           | None \<Rightarrow> Inr (length (filter (\<lambda>r. 3 \<le> length r)
                 (fst (data_rows_tr (if mapping_csv = source_csv then [] else stored))))),
           fs(mapping_csv \<mapsto> writerows (map (\<lambda>r. [r ! 0, r ! 1])
              (filter (\<lambda>r. 3 \<le> length r)
                 (fst (data_rows_tr (if mapping_csv = source_csv then [] else stored))))))))"
  by (simp add: create_mapping_file_def data_rows_tr_def extract_rows_eq
      split: option.splits prod.splits)

lemma data_rows_tr_Nil: "data_rows_tr [] = ([], None)"
  by (simp add: data_rows_tr_def csv_reader_def parse_reset_def)

lemma data_rows_tr_fields_ok:
  assumes "r \<in> set (fst (data_rows_tr t))"
  shows "\<forall>f \<in> set r. field_ok f"
proof -
  have "r \<in> set (fst (csv_reader (file_lines (universal_newlines t))))"
    using assms by (auto simp: data_rows_tr_def split: prod.splits dest: in_set_dropD)
  then show ?thesis using csv_reader_text_ok [of t] by blast
qed

lemma load_translations_eq:
  "load_translations fs mapping_csv =
     (case fs mapping_csv of
        None \<Rightarrow> Inl (FileNotFoundError mapping_csv)
      | Some stored \<Rightarrow>
          (case snd (csv_reader (file_lines (universal_newlines stored))) of
             Some e \<Rightarrow> Inl (CsvError e)
           | None \<Rightarrow>
               Inr (fold (\<lambda>r t. if 2 \<le> length r then AList.update (r ! 0) (r ! 1) t else t)
                      (fst (csv_reader (file_lines (universal_newlines stored)))) [])))"
  by (simp add: load_translations_def load_rows_eq split: option.splits prod.splits)

lemma last_filter_nth:
  assumes "i < length xs" and "P (xs ! i)"
    and "\<forall>j. i < j \<and> j < length xs \<longrightarrow> \<not> P (xs ! j)"
  shows "last (filter P xs) = xs ! i"
proof -
  have xs: "xs = take i xs @ xs ! i # drop (Suc i) xs"
    using assms(1) by (simp add: id_take_nth_drop)
  have "filter P (drop (Suc i) xs) = []"
  proof -
    have "\<forall>x \<in> set (drop (Suc i) xs). \<not> P x"
    proof
      fix x assume "x \<in> set (drop (Suc i) xs)"
      then obtain k where k: "k < length (drop (Suc i) xs)" "x = drop (Suc i) xs ! k"
        by (auto simp: in_set_conv_nth)
      then have "x = xs ! (Suc i + k)" "Suc i + k < length xs" by auto
      then show "\<not> P x" using assms(3) by auto
    qed
    then show ?thesis by (simp add: filter_empty_conv)
  qed
  then have "filter P xs = filter P (take i xs) @ [xs ! i]"
    using assms(2) by (subst xs) simp
  then show ?thesis by simp
qed

lemma read_back_extracted:
  "csv_reader (file_lines (universal_newlines (writerows (map (\<lambda>r. [r ! 0, r ! 1])
       (filter (\<lambda>r. 3 \<le> length r) (fst (data_rows_tr t))))))) =
   (map (\<lambda>r. [r ! 0, r ! 1]) (filter (\<lambda>r. 3 \<le> length r) (fst (data_rows_tr t))), None)"
proof (rule read_back_written, rule ballI)
  fix row
  assume "row \<in> set (map (\<lambda>r. [r ! 0, r ! 1]) (filter (\<lambda>r. 3 \<le> length r) (fst (data_rows_tr t))))"
  then obtain r where r: "r \<in> set (fst (data_rows_tr t))" "3 \<le> length r" "row = [r ! 0, r ! 1]"
    by auto
  have "r ! 0 \<in> set r" "r ! 1 \<in> set r" using r(2) by (auto intro: nth_mem)
  then show "row \<noteq> [] \<and> (\<forall>f \<in> set row. field_ok f)"
    using data_rows_tr_fields_ok [OF r(1)] r(3) by simp
qed

lemma extracted_index:
  fixes kept :: "row list"
  defines "index \<equiv> fold (\<lambda>r t. if 2 \<le> length r then AList.update (r ! 0) (r ! 1) t else t)
                      (map (\<lambda>r. [r ! 0, r ! 1]) kept) []"
  assumes "i < length kept"
  shows "\<exists>v. map_of index (kept ! i ! 0) = Some v"
    and "(\<forall>j. i < j \<and> j < length kept \<longrightarrow> kept ! j ! 0 \<noteq> kept ! i ! 0) \<Longrightarrow>
           map_of index (kept ! i ! 0) = Some (kept ! i ! 1)"
proof -
  let ?E = "map (\<lambda>r. [r ! 0, r ! 1]) kept"
  let ?P = "\<lambda>e::row. 2 \<le> length e \<and> e ! 0 = kept ! i ! 0"
  have in_E: "?E ! i \<in> set ?E" by (rule nth_mem) (use assms(2) in simp)
  have P_i: "?P (?E ! i)" using assms(2) by simp
  then have ne: "filter ?P ?E \<noteq> []" using in_E by (auto simp: filter_empty_conv simp del: nth_map)
  have look: "map_of index (kept ! i ! 0) = Some (last (filter ?P ?E) ! 1)"
    unfolding index_def map_of_fold_update using ne by (auto split: list.splits)
  then show "\<exists>v. map_of index (kept ! i ! 0) = Some v" by blast
  assume later: "\<forall>j. i < j \<and> j < length kept \<longrightarrow> kept ! j ! 0 \<noteq> kept ! i ! 0"
  have "last (filter ?P ?E) = ?E ! i"
  proof (rule last_filter_nth)
    show "i < length ?E" using assms(2) by simp
    show "?P (?E ! i)" by (rule P_i)
    show "\<forall>j. i < j \<and> j < length ?E \<longrightarrow> \<not> ?P (?E ! j)" using later by simp
  qed
  then show "map_of index (kept ! i ! 0) = Some (kept ! i ! 1)"
    using look assms(2) by simp
qed

lemma example_header_complete:
  "\<forall>l \<in> set (take 3 (file_lines (universal_newlines example_source))). complete_record l"
  by (simp add: run_defs complete_record_def)

lemma header_kept_without_CR:
  assumes "fs source_csv = Some stored" and "CR \<notin> set stored"
    and "fst (build_translation_file_cmd fs source_csv mapping_csv output_csv) = Inr rep"
  shows "\<exists>data. snd (build_translation_file_cmd fs source_csv mapping_csv output_csv) output_csv =
           Some (concat (take 3 (file_lines stored)) @ data)"
  using assms unfolding build_cmd_eq
  by (auto simp: universal_newlines_id split: sum.splits option.splits)

lemma data_rows_tr_eq:
  "data_rows_tr stored =
     (drop 3 (fst (csv_reader (file_lines (universal_newlines stored)))),
      snd (csv_reader (file_lines (universal_newlines stored))))"
  by (simp add: data_rows_tr_def split: prod.splits)

lemma rows_after_header_agree:
  assumes "\<forall>l \<in> set (take 3 (file_lines (universal_newlines stored))). complete_record l"
  shows "csv_reader (drop 3 (file_lines (universal_newlines stored))) =
           (drop 3 (fst (csv_reader (file_lines (universal_newlines stored)))),
            snd (csv_reader (file_lines (universal_newlines stored))))"
  using data_rows_agree [OF assms] by (simp add: data_rows_cmd_eq data_rows_tr_eq)

lemma example_source_row:
  "[''k1'', ''o1'', ''f1''] \<in>
     set (drop 3 (fst (csv_reader (file_lines (universal_newlines example_source)))))"
  by (simp add: run_defs)

lemma example_source_row_lines:
  "[''k1'', ''o1'', ''f1''] \<in>
     set (fst (csv_reader (drop 3 (file_lines (universal_newlines example_source)))))"
  by (simp add: run_defs)

section \<open>The claims\<close>

text \<open>
  C1, as amended. For a source whose first three lines are each a complete csv record,
  the records after the first three records are the records of the text after the first
  three lines, and every such data row with at least three fields is emitted by both
  variants of the Merger as key, original text and resolved text: the key and the
  original text are the row's first two fields, and the resolved text is the
  Translation Index value of the key when the index has the key, the row's third field
  otherwise. The row is among the data rows held in memory, and these are the rows
  written to the output file.
\<close>

theorem merger_emits_resolved_row:
  assumes "load_translations fs mapping_csv = Inr index"
    and "fs source_csv = Some stored"
    and "\<forall>l \<in> set (take 3 (file_lines (universal_newlines stored))). complete_record l"
    and "key # original # fallback # extra \<in>
           set (drop 3 (fst (csv_reader (file_lines (universal_newlines stored)))))"
  shows "drop 3 (fst (csv_reader (file_lines (universal_newlines stored)))) =
           fst (csv_reader (drop 3 (file_lines (universal_newlines stored))))
       \<and> (fst (build_translation_file_cmd fs source_csv mapping_csv output_csv) = Inr rep \<longrightarrow>
          (\<exists>data_rows.
             read_source_cmd index stored =
               Inr (take 3 (file_lines (universal_newlines stored)), data_rows, updated rep) \<and>
             snd (build_translation_file_cmd fs source_csv mapping_csv output_csv) output_csv =
               Some (concat (take 3 (file_lines (universal_newlines stored))) @ writerows data_rows) \<and>
             [key, original, (case map_of index key of Some text \<Rightarrow> text | None \<Rightarrow> fallback)]
               \<in> set data_rows))
       \<and> (fst (build_translation_file_tr fs source_csv mapping_csv output_csv) = Inr rep_tr \<longrightarrow>
          (\<exists>rows.
             read_source_tr index stored = Inr (rows, preserved rep_tr, updated rep_tr) \<and>
             snd (build_translation_file_tr fs source_csv mapping_csv output_csv) output_csv =
               Some (writerows rows) \<and>
             [key, original, (case map_of index key of Some text \<Rightarrow> text | None \<Rightarrow> fallback)]
               \<in> set (drop (preserved rep_tr) rows)))"
proof (intro conjI impI)
  let ?r = "key # original # fallback # extra"
  let ?f = "\<lambda>r::row. [r ! 0, r ! 1, case map_of index (r ! 0) of Some t \<Rightarrow> t | None \<Rightarrow> r ! 2]"
  let ?out = "[key, original, (case map_of index key of Some text \<Rightarrow> text | None \<Rightarrow> fallback)]"
  have tr: "fst (data_rows_tr stored) = drop 3 (fst (csv_reader (file_lines (universal_newlines stored))))"
    by (simp add: data_rows_tr_eq)
  have cmd: "fst (data_rows_cmd stored) = drop 3 (fst (csv_reader (file_lines (universal_newlines stored))))"
    using data_rows_agree [OF assms(3)] tr by simp
  show "drop 3 (fst (csv_reader (file_lines (universal_newlines stored)))) =
           fst (csv_reader (drop 3 (file_lines (universal_newlines stored))))"
    using rows_after_header_agree [OF assms(3)] by simp
  have kept: "?r \<in> set (filter (\<lambda>r. 3 \<le> length r)
      (drop 3 (fst (csv_reader (file_lines (universal_newlines stored))))))"
    using assms(4) by simp
  have fr: "?f ?r = ?out" by (auto simp: numeral_2_eq_2 split: option.splits)
  {
    assume a: "fst (build_translation_file_cmd fs source_csv mapping_csv output_csv) = Inr rep"
    obtain fs' where b: "build_translation_file_cmd fs source_csv mapping_csv output_csv = (Inr rep, fs')"
      using a by (cases "build_translation_file_cmd fs source_csv mapping_csv output_csv") auto
    from build_cmd_Inr [OF b] assms(1,2) obtain hl dr where
      c: "read_source_cmd index stored = Inr (hl, dr, updated rep)"
      and d: "fs' = fs(output_csv \<mapsto> concat hl @ writerows dr)"
      by auto
    have hl: "hl = take 3 (file_lines (universal_newlines stored))"
      using read_source_cmd_Inr(1) [OF c] by (simp add: read_header_lines_eq)
    have "?f ?r \<in> set dr"
      unfolding read_source_cmd_Inr(3) [OF c] set_map cmd using kept by (rule imageI)
    then have "?out \<in> set dr" unfolding fr .
    then show "\<exists>data_rows.
             read_source_cmd index stored =
               Inr (take 3 (file_lines (universal_newlines stored)), data_rows, updated rep) \<and>
             snd (build_translation_file_cmd fs source_csv mapping_csv output_csv) output_csv =
               Some (concat (take 3 (file_lines (universal_newlines stored))) @ writerows data_rows) \<and>
             ?out \<in> set data_rows"
      using b c d hl by auto
  }
  {
    assume a: "fst (build_translation_file_tr fs source_csv mapping_csv output_csv) = Inr rep_tr"
    obtain fs' where b: "build_translation_file_tr fs source_csv mapping_csv output_csv = (Inr rep_tr, fs')"
      using a by (cases "build_translation_file_tr fs source_csv mapping_csv output_csv") auto
    from build_tr_Inr [OF b] assms(1,2) obtain rows where
      c: "read_source_tr index stored = Inr (rows, preserved rep_tr, updated rep_tr)"
      and d: "fs' = fs(output_csv \<mapsto> writerows rows)"
      by auto
    have "?f ?r \<in> set (map ?f (filter (\<lambda>r. 3 \<le> length r) (fst (data_rows_tr stored))))"
      unfolding set_map tr using kept by (rule imageI)
    then have "?out \<in> set (drop (preserved rep_tr) rows)"
      unfolding fr using read_source_tr_Inr(1,3) [OF c] by simp
    then show "\<exists>rows.
             read_source_tr index stored = Inr (rows, preserved rep_tr, updated rep_tr) \<and>
             snd (build_translation_file_tr fs source_csv mapping_csv output_csv) output_csv =
               Some (writerows rows) \<and> ?out \<in> set (drop (preserved rep_tr) rows)"
      using b c d by auto
  }
qed

theorem merger_emits_resolved_row_witness:
  "(\<exists>data_rows.
      read_source_cmd [(''k1'', ''t2'')] example_source =
        Inr (take 3 (file_lines (universal_newlines example_source)), data_rows, 1) \<and>
      snd (build_translation_file_cmd example_files ''source.csv'' ''mapping.csv'' ''out.csv'') ''out.csv'' =
        Some (concat (take 3 (file_lines (universal_newlines example_source))) @ writerows data_rows) \<and>
      [''k1'', ''o1'', ''t2''] \<in> set data_rows)
   \<and> (\<exists>rows.
      read_source_tr [(''k1'', ''t2'')] example_source = Inr (rows, 2, 1) \<and>
      snd (build_translation_file_tr example_files ''source.csv'' ''mapping.csv'' ''out.csv'') ''out.csv'' =
        Some (writerows rows) \<and>
      [''k1'', ''o1'', ''t2''] \<in> set (drop 2 rows))"
proof -
  have s: "example_files ''source.csv'' = Some example_source" by simp
  note t = merger_emits_resolved_row [where fs = "example_files" and source_csv = "''source.csv''"
        and mapping_csv = "''mapping.csv''" and stored = "example_source"
        and index = "[(''k1'', ''t2'')]"
        and output_csv = "''out.csv''" and key = "''k1''" and original = "''o1''"
        and fallback = "''f1''" and extra = "[]"
        and rep = "\<lparr>loaded = 1, preserved = 3, updated = 1, total = 2\<rparr>"
        and rep_tr = "\<lparr>loaded = 1, preserved = 2, updated = 1, total = 4\<rparr>",
        OF example_load s example_header_complete example_source_row]
  have m: "(case map_of [(''k1'', ''t2'')] ''k1'' of Some text \<Rightarrow> text | None \<Rightarrow> ''f1'') = ''t2''"
    by simp
  have u: "updated \<lparr>loaded = 1, preserved = 3, updated = 1, total = 2\<rparr> = 1"
     "updated \<lparr>loaded = 1, preserved = 2, updated = 1, total = 4\<rparr> = 1"
     "preserved \<lparr>loaded = 1, preserved = 2, updated = 1, total = 4\<rparr> = 2"
    by simp_all
  show ?thesis
    using t [THEN conjunct2, THEN conjunct1, THEN mp, OF example_build_cmd]
      t [THEN conjunct2, THEN conjunct2, THEN mp, OF example_build_tr]
    unfolding m u by (rule conjI)
qed

text \<open>
  C1 as stated fails when a quoted field of the header runs over a line break. In the
  first source the data row \<open>k1,o1,f1\<close> follows the three header records, but
  \<^verbatim>\<open>transcmd.py\<close> takes three raw lines as header, reads the rest as one quoted field
  and writes no data row. In the second source the row with key \<open>k0\<close> follows the three
  header lines, but \<^verbatim>\<open>translations.py\<close> takes it into the third header record and
  writes no row for it.
\<close>

theorem merger_loses_row_counterexample:
  "[''k1'', ''o1'', ''f1''] \<in>
     set (drop 3 (fst (csv_reader (file_lines (universal_newlines closed_header_source)))))
   \<and> fst (build_translation_file_cmd
          (map_of [(''source.csv'', closed_header_source), (''mapping.csv'', [])])
          ''source.csv'' ''mapping.csv'' ''out.csv'') =
       Inr \<lparr>loaded = 0, preserved = 3, updated = 0, total = 0\<rparr>
   \<and> snd (build_translation_file_cmd
          (map_of [(''source.csv'', closed_header_source), (''mapping.csv'', [])])
          ''source.csv'' ''mapping.csv'' ''out.csv'') ''out.csv'' =
       Some (''a'' @ [LF] @ ''b'' @ [LF] @ [DQ] @ ''c'' @ [LF])
   \<and> [''k0'', ''o0'', ''f0'' @ [DQ], ''z''] \<in>
     set (fst (csv_reader (drop 3 (file_lines (universal_newlines split_header_source)))))
   \<and> snd (build_translation_file_tr
          (map_of [(''source.csv'', split_header_source), (''mapping.csv'', [])])
          ''source.csv'' ''mapping.csv'' ''out.csv'') ''out.csv'' =
       Some (writerows [[''a''], [''b''], [''c'' @ [LF] @ ''k0,o0,f0'', ''z''],
                        [''k1'', ''o1'', ''f1'']])"
  by (simp add: run_defs)

text \<open>
  C6, as amended. For a source whose first three lines are each a complete csv record,
  the number of data rows the Merger writes equals the number of source records after
  the first three records that have at least three fields (they are then the records of
  the text after the first three lines), and it is the total the run reports.
\<close>

theorem merger_row_count:
  assumes "fs source_csv = Some stored"
    and "\<forall>l \<in> set (take 3 (file_lines (universal_newlines stored))). complete_record l"
    and "fst (build_translation_file_cmd fs source_csv mapping_csv output_csv) = Inr rep"
  shows "\<exists>index data_rows.
           load_translations fs mapping_csv = Inr index \<and>
           read_source_cmd index stored =
             Inr (take 3 (file_lines (universal_newlines stored)), data_rows, updated rep) \<and>
           snd (build_translation_file_cmd fs source_csv mapping_csv output_csv) output_csv =
             Some (concat (take 3 (file_lines (universal_newlines stored))) @ writerows data_rows) \<and>
           length data_rows =
             length (filter (\<lambda>r. 3 \<le> length r)
               (drop 3 (fst (csv_reader (file_lines (universal_newlines stored)))))) \<and>
           drop 3 (fst (csv_reader (file_lines (universal_newlines stored)))) =
             fst (csv_reader (drop 3 (file_lines (universal_newlines stored)))) \<and>
           total rep = length data_rows"
proof -
  obtain fs' where b: "build_translation_file_cmd fs source_csv mapping_csv output_csv = (Inr rep, fs')"
    using assms(3) by (cases "build_translation_file_cmd fs source_csv mapping_csv output_csv") auto
  from build_cmd_Inr [OF b] assms(1) obtain index hl dr where
    c: "load_translations fs mapping_csv = Inr index"
       "read_source_cmd index stored = Inr (hl, dr, updated rep)" "total rep = length dr"
       "fs' = fs(output_csv \<mapsto> concat hl @ writerows dr)"
    by auto
  have hl: "hl = take 3 (file_lines (universal_newlines stored))"
    using read_source_cmd_Inr(1) [OF c(2)] by (simp add: read_header_lines_eq)
  have rows: "fst (data_rows_cmd stored) =
      drop 3 (fst (csv_reader (file_lines (universal_newlines stored))))"
    using rows_after_header_agree [OF assms(2)] by (simp add: data_rows_cmd_eq)
  have len: "length dr = length (filter (\<lambda>r. 3 \<le> length r)
      (drop 3 (fst (csv_reader (file_lines (universal_newlines stored))))))"
    unfolding read_source_cmd_Inr(3) [OF c(2)] rows by simp
  have same: "drop 3 (fst (csv_reader (file_lines (universal_newlines stored)))) =
             fst (csv_reader (drop 3 (file_lines (universal_newlines stored))))"
    using rows_after_header_agree [OF assms(2)] by simp
  show ?thesis using b c hl len same by auto
qed

theorem merger_row_count_witness:
  "\<exists>index data_rows.
           load_translations example_files ''mapping.csv'' = Inr index \<and>
           read_source_cmd index example_source =
             Inr (take 3 (file_lines (universal_newlines example_source)), data_rows,
                  updated \<lparr>loaded = 1, preserved = 3, updated = 1, total = 2\<rparr>) \<and>
           snd (build_translation_file_cmd example_files ''source.csv'' ''mapping.csv'' ''out.csv'') ''out.csv'' =
             Some (concat (take 3 (file_lines (universal_newlines example_source))) @ writerows data_rows) \<and>
           length data_rows =
             length (filter (\<lambda>r. 3 \<le> length r)
               (drop 3 (fst (csv_reader (file_lines (universal_newlines example_source)))))) \<and>
           drop 3 (fst (csv_reader (file_lines (universal_newlines example_source)))) =
             fst (csv_reader (drop 3 (file_lines (universal_newlines example_source)))) \<and>
           total \<lparr>loaded = 1, preserved = 3, updated = 1, total = 2\<rparr> = length data_rows"
proof -
  have s: "example_files ''source.csv'' = Some example_source" by simp
  show ?thesis
    by (rule merger_row_count [where fs = "example_files" and source_csv = "''source.csv''"
        and stored = "example_source"
        and mapping_csv = "''mapping.csv''" and output_csv = "''out.csv''"
        and rep = "\<lparr>loaded = 1, preserved = 3, updated = 1, total = 2\<rparr>",
        OF s example_header_complete example_build_cmd])
qed

text \<open>
  C6 as stated fails when a quoted field of the header runs over a line break: for this
  source \<^verbatim>\<open>transcmd.py\<close> writes two data rows, while one record follows the three
  header records.
\<close>

theorem merger_row_count_counterexample:
  "fst (build_translation_file_cmd
          (map_of [(''source.csv'', split_header_source), (''mapping.csv'', [])])
          ''source.csv'' ''mapping.csv'' ''out.csv'') =
       Inr \<lparr>loaded = 0, preserved = 3, updated = 0, total = 2\<rparr>
   \<and> snd (build_translation_file_cmd
          (map_of [(''source.csv'', split_header_source), (''mapping.csv'', [])])
          ''source.csv'' ''mapping.csv'' ''out.csv'') ''out.csv'' =
       Some (''a'' @ [LF] @ ''b'' @ [LF] @ [DQ] @ ''c'' @ [LF] @
             writerows [[''k0'', ''o0'', ''f0'' @ [DQ]], [''k1'', ''o1'', ''f1'']])
   \<and> drop 3 (fst (csv_reader (file_lines (universal_newlines split_header_source)))) =
       [[''k1'', ''o1'', ''f1'']]"
  by (simp add: run_defs)

text \<open>
  C7. The data rows of the output are in the order of the retained source rows: the
  list of their keys and original texts is that of the source rows with at least three
  fields, in source order.
\<close>

theorem merger_keeps_row_order:
  assumes "fst (build_translation_file_cmd fs source_csv mapping_csv output_csv) = Inr rep"
  shows "\<exists>index stored header_lines data_rows.
           load_translations fs mapping_csv = Inr index \<and> fs source_csv = Some stored \<and>
           read_source_cmd index stored = Inr (header_lines, data_rows, updated rep) \<and>
           snd (build_translation_file_cmd fs source_csv mapping_csv output_csv) output_csv =
             Some (concat header_lines @ writerows data_rows) \<and>
           map (\<lambda>d. (d ! 0, d ! 1)) data_rows =
             map (\<lambda>r. (r ! 0, r ! 1)) (filter (\<lambda>r. 3 \<le> length r) (fst (data_rows_cmd stored)))"
proof -
  obtain fs' where b: "build_translation_file_cmd fs source_csv mapping_csv output_csv = (Inr rep, fs')"
    using assms by (cases "build_translation_file_cmd fs source_csv mapping_csv output_csv") auto
  from build_cmd_Inr [OF b] obtain index stored hl dr where
    c: "load_translations fs mapping_csv = Inr index" "fs source_csv = Some stored"
       "read_source_cmd index stored = Inr (hl, dr, updated rep)"
       "fs' = fs(output_csv \<mapsto> concat hl @ writerows dr)"
    by auto
  have "map (\<lambda>d. (d ! 0, d ! 1)) dr =
          map (\<lambda>r. (r ! 0, r ! 1)) (filter (\<lambda>r. 3 \<le> length r) (fst (data_rows_cmd stored)))"
    unfolding read_source_cmd_Inr(3) [OF c(3)] by simp
  then show ?thesis using b c by auto
qed

theorem merger_keeps_row_order_witness:
  "\<exists>index stored header_lines data_rows.
           load_translations example_files ''mapping.csv'' = Inr index \<and>
           example_files ''source.csv'' = Some stored \<and>
           read_source_cmd index stored = Inr (header_lines, data_rows,
              updated \<lparr>loaded = 1, preserved = 3, updated = 1, total = 2\<rparr>) \<and>
           snd (build_translation_file_cmd example_files ''source.csv'' ''mapping.csv'' ''out.csv'') ''out.csv'' =
             Some (concat header_lines @ writerows data_rows) \<and>
           map (\<lambda>d. (d ! 0, d ! 1)) data_rows =
             map (\<lambda>r. (r ! 0, r ! 1)) (filter (\<lambda>r. 3 \<le> length r) (fst (data_rows_cmd stored)))"
  by (rule merger_keeps_row_order [where fs = "example_files" and source_csv = "''source.csv''"
        and mapping_csv = "''mapping.csv''" and output_csv = "''out.csv''"
        and rep = "\<lparr>loaded = 1, preserved = 3, updated = 1, total = 2\<rparr>",
        OF example_build_cmd])

text \<open>
  C5. A row with fewer than three fields is emitted by neither loop, and neither loop
  raises because of it: with the row or without it, the Extractor's loop writes the same
  text and the Merger's loop builds the same rows, and both loops finish without an
  exception.
\<close>

theorem short_rows_are_skipped:
  assumes "length r < 3"
  shows "extract_rows (before @ r # after) out n = extract_rows (before @ after) out n
       \<and> (\<exists>out' n'. extract_rows (before @ r # after) out n = (out', n', None))
       \<and> resolve_rows index (before @ r # after) acc m = resolve_rows index (before @ after) acc m
       \<and> (\<exists>res. resolve_rows index (before @ r # after) acc m = Inr res)"
  using assms by (simp add: extract_rows_eq resolve_rows_eq)

theorem short_rows_are_skipped_witness:
  "extract_rows ([[''k1'', ''o1'', ''f1'']] @ [''k2'', ''o2''] # [[''k3'', ''o3'', ''f3'']]) [] 0 =
     extract_rows ([[''k1'', ''o1'', ''f1'']] @ [[''k3'', ''o3'', ''f3'']]) [] 0
   \<and> (\<exists>out' n'. extract_rows ([[''k1'', ''o1'', ''f1'']] @ [''k2'', ''o2''] # [[''k3'', ''o3'', ''f3'']]) [] 0 =
         (out', n', None))
   \<and> resolve_rows [(''k1'', ''t2'')] ([[''k1'', ''o1'', ''f1'']] @ [''k2'', ''o2''] # [[''k3'', ''o3'', ''f3'']]) [] 0 =
     resolve_rows [(''k1'', ''t2'')] ([[''k1'', ''o1'', ''f1'']] @ [[''k3'', ''o3'', ''f3'']]) [] 0
   \<and> (\<exists>res. resolve_rows [(''k1'', ''t2'')] ([[''k1'', ''o1'', ''f1'']] @ [''k2'', ''o2''] # [[''k3'', ''o3'', ''f3'']]) [] 0 =
         Inr res)"
proof -
  have l: "length [''k2'', ''o2''] < 3" by simp
  show ?thesis
    by (rule short_rows_are_skipped [where r = "[''k2'', ''o2'']"
          and before = "[[''k1'', ''o1'', ''f1'']]" and after = "[[''k3'', ''o3'', ''f3'']]"
          and out = "[]" and n = 0 and index = "[(''k1'', ''t2'')]" and acc = "[]" and m = 0, OF l])
qed

text \<open>
  C10. The Merger writes the output only when both inputs have been read and every row
  resolved: a run of either variant that ends in an exception leaves the file system as
  it was.
\<close>

theorem input_failure_leaves_files:
  "(fst (build_translation_file_cmd fs source_csv mapping_csv output_csv) = Inl e \<longrightarrow>
      snd (build_translation_file_cmd fs source_csv mapping_csv output_csv) = fs)
   \<and> (fst (build_translation_file_tr fs source_csv mapping_csv output_csv) = Inl e \<longrightarrow>
      snd (build_translation_file_tr fs source_csv mapping_csv output_csv) = fs)"
proof (intro conjI impI)
  assume "fst (build_translation_file_cmd fs source_csv mapping_csv output_csv) = Inl e"
  then show "snd (build_translation_file_cmd fs source_csv mapping_csv output_csv) = fs"
    using build_cmd_Inl [of fs source_csv mapping_csv output_csv e]
    by (cases "build_translation_file_cmd fs source_csv mapping_csv output_csv") auto
next
  assume "fst (build_translation_file_tr fs source_csv mapping_csv output_csv) = Inl e"
  then show "snd (build_translation_file_tr fs source_csv mapping_csv output_csv) = fs"
    using build_tr_Inl [of fs source_csv mapping_csv output_csv e]
    by (cases "build_translation_file_tr fs source_csv mapping_csv output_csv") auto
qed

theorem input_failure_leaves_files_witness:
  "snd (build_translation_file_cmd (map_of [(''mapping.csv'', example_mapping)])
          ''source.csv'' ''mapping.csv'' ''out.csv'') = map_of [(''mapping.csv'', example_mapping)]
   \<and> snd (build_translation_file_tr (map_of [(''mapping.csv'', example_mapping)])
          ''source.csv'' ''mapping.csv'' ''out.csv'') = map_of [(''mapping.csv'', example_mapping)]"
proof -
  note t = input_failure_leaves_files [where fs = "map_of [(''mapping.csv'', example_mapping)]"
      and source_csv = "''source.csv''" and mapping_csv = "''mapping.csv''"
      and output_csv = "''out.csv''" and e = "FileNotFoundError ''source.csv''"]
  have a: "fst (build_translation_file_cmd (map_of [(''mapping.csv'', example_mapping)])
          ''source.csv'' ''mapping.csv'' ''out.csv'') = Inl (FileNotFoundError ''source.csv'')"
    by (simp add: run_defs)
  have b: "fst (build_translation_file_tr (map_of [(''mapping.csv'', example_mapping)])
          ''source.csv'' ''mapping.csv'' ''out.csv'') = Inl (FileNotFoundError ''source.csv'')"
    by (simp add: run_defs)
  show ?thesis
    using t [THEN conjunct1, rule_format, OF a] t [THEN conjunct2, rule_format, OF b]
    by (rule conjI)
qed

text \<open>
  C4. When the mapping file has records with at least two fields that share a key, the
  Translation Index maps the key to the text of the last of them in file order. Every
  source row with at least three fields and that key, among the records that follow the
  three header lines, is written with that text as resolved text, and no written row
  with that key carries another text. For a source whose first three lines are each a
  complete csv record these records are the records after the first three records.
\<close>

theorem duplicate_key_last_wins:
  assumes "fs mapping_csv = Some stored_mapping"
    and "load_translations fs mapping_csv = Inr index"
    and "filter (\<lambda>r. 2 \<le> length r \<and> r ! 0 = key)
           (fst (csv_reader (file_lines (universal_newlines stored_mapping)))) = same_key"
    and "same_key \<noteq> []"
    and "fs source_csv = Some stored"
  shows "map_of index key = Some (last same_key ! 1)
       \<and> (key # original # fallback # extra \<in>
             set (fst (csv_reader (drop 3 (file_lines (universal_newlines stored))))) \<and>
          fst (build_translation_file_cmd fs source_csv mapping_csv output_csv) = Inr rep \<longrightarrow>
            (\<exists>data_rows.
               read_source_cmd index stored =
                 Inr (take 3 (file_lines (universal_newlines stored)), data_rows, updated rep) \<and>
               snd (build_translation_file_cmd fs source_csv mapping_csv output_csv) output_csv =
                 Some (concat (take 3 (file_lines (universal_newlines stored))) @ writerows data_rows) \<and>
               [key, original, last same_key ! 1] \<in> set data_rows \<and>
               (\<forall>d \<in> set data_rows. d ! 0 = key \<longrightarrow> d ! 2 = last same_key ! 1)))
       \<and> ((\<forall>l \<in> set (take 3 (file_lines (universal_newlines stored))). complete_record l) \<longrightarrow>
            fst (csv_reader (drop 3 (file_lines (universal_newlines stored)))) =
              drop 3 (fst (csv_reader (file_lines (universal_newlines stored)))))"
proof -
  let ?r = "key # original # fallback # extra"
  let ?f = "\<lambda>r::row. [r ! 0, r ! 1, case map_of index (r ! 0) of Some t \<Rightarrow> t | None \<Rightarrow> r ! 2]"
  have idx: "index = fold (\<lambda>r t. if 2 \<le> length r then AList.update (r ! 0) (r ! 1) t else t)
               (fst (csv_reader (file_lines (universal_newlines stored_mapping)))) []"
    using assms(1,2)
    by (auto simp: load_translations_def load_rows_eq split: prod.splits option.splits)
  have look: "map_of index key = Some (last same_key ! 1)"
    unfolding idx map_of_fold_update using assms(3,4) by (auto split: list.splits)
  have out: "\<exists>data_rows.
               read_source_cmd index stored =
                 Inr (take 3 (file_lines (universal_newlines stored)), data_rows, updated rep) \<and>
               snd (build_translation_file_cmd fs source_csv mapping_csv output_csv) output_csv =
                 Some (concat (take 3 (file_lines (universal_newlines stored))) @ writerows data_rows) \<and>
               [key, original, last same_key ! 1] \<in> set data_rows \<and>
               (\<forall>d \<in> set data_rows. d ! 0 = key \<longrightarrow> d ! 2 = last same_key ! 1)"
    if m: "?r \<in> set (fst (csv_reader (drop 3 (file_lines (universal_newlines stored)))))"
      and a: "fst (build_translation_file_cmd fs source_csv mapping_csv output_csv) = Inr rep"
  proof -
    obtain fs' where b: "build_translation_file_cmd fs source_csv mapping_csv output_csv = (Inr rep, fs')"
      using a by (cases "build_translation_file_cmd fs source_csv mapping_csv output_csv") auto
    from build_cmd_Inr [OF b] assms(2,5) obtain hl dr where
      c: "read_source_cmd index stored = Inr (hl, dr, updated rep)"
         "fs' = fs(output_csv \<mapsto> concat hl @ writerows dr)"
      by auto
    have hl: "hl = take 3 (file_lines (universal_newlines stored))"
      using read_source_cmd_Inr(1) [OF c(1)] by (simp add: read_header_lines_eq)
    have kept: "?r \<in> set (filter (\<lambda>r. 3 \<le> length r) (fst (data_rows_cmd stored)))"
      using m by (simp add: data_rows_cmd_eq)
    have "?f ?r \<in> set dr"
      unfolding read_source_cmd_Inr(3) [OF c(1)] set_map using kept by (rule imageI)
    moreover have "?f ?r = [key, original, last same_key ! 1]"
      using look by simp
    ultimately have row: "[key, original, last same_key ! 1] \<in> set dr" by simp
    have "\<forall>d \<in> set dr. d ! 0 = key \<longrightarrow> d ! 2 = last same_key ! 1"
      unfolding read_source_cmd_Inr(3) [OF c(1)] using look by (auto simp: numeral_2_eq_2)
    then show ?thesis using b c hl row by auto
  qed
  have agree: "fst (csv_reader (drop 3 (file_lines (universal_newlines stored)))) =
              drop 3 (fst (csv_reader (file_lines (universal_newlines stored))))"
    if "\<forall>l \<in> set (take 3 (file_lines (universal_newlines stored))). complete_record l"
    using rows_after_header_agree [OF that] by simp
  show ?thesis using look out agree by blast
qed

theorem duplicate_key_last_wins_witness:
  "map_of [(''k1'', ''t2'')] ''k1'' = Some ''t2''
   \<and> (\<exists>data_rows.
         read_source_cmd [(''k1'', ''t2'')] example_source =
           Inr (take 3 (file_lines (universal_newlines example_source)), data_rows, 1) \<and>
         snd (build_translation_file_cmd example_files ''source.csv'' ''mapping.csv'' ''out.csv'') ''out.csv'' =
           Some (concat (take 3 (file_lines (universal_newlines example_source))) @ writerows data_rows) \<and>
         [''k1'', ''o1'', ''t2''] \<in> set data_rows \<and>
         (\<forall>d \<in> set data_rows. d ! 0 = ''k1'' \<longrightarrow> d ! 2 = ''t2''))
   \<and> fst (csv_reader (drop 3 (file_lines (universal_newlines example_source)))) =
       drop 3 (fst (csv_reader (file_lines (universal_newlines example_source))))"
proof -
  have a: "example_files ''mapping.csv'' = Some example_mapping" by simp
  have b: "filter (\<lambda>r. 2 \<le> length r \<and> r ! 0 = ''k1'')
           (fst (csv_reader (file_lines (universal_newlines example_mapping)))) =
             [[''k1'', ''t1''], [''k1'', ''t2'']]"
    by (simp add: run_defs)
  have c: "[[''k1'', ''t1''], [''k1'', ''t2'']] \<noteq> []" by simp
  have s: "example_files ''source.csv'' = Some example_source" by simp
  note t = duplicate_key_last_wins [where fs = "example_files" and mapping_csv = "''mapping.csv''"
      and stored_mapping = "example_mapping" and index = "[(''k1'', ''t2'')]" and key = "''k1''"
      and same_key = "[[''k1'', ''t1''], [''k1'', ''t2'']]" and source_csv = "''source.csv''"
      and stored = "example_source" and original = "''o1''" and fallback = "''f1''"
      and extra = "[]" and output_csv = "''out.csv''"
      and rep = "\<lparr>loaded = 1, preserved = 3, updated = 1, total = 2\<rparr>",
      OF a example_load b c s]
  have l: "last [[''k1'', ''t1''], [''k1'', ''t2'']] ! 1 = ''t2''" by simp
  have u: "updated \<lparr>loaded = 1, preserved = 3, updated = 1, total = 2\<rparr> = 1" by simp
  have h: "[''k1'', ''o1'', ''f1''] \<in>
       set (fst (csv_reader (drop 3 (file_lines (universal_newlines example_source))))) \<and>
     fst (build_translation_file_cmd example_files ''source.csv'' ''mapping.csv'' ''out.csv'') =
       Inr \<lparr>loaded = 1, preserved = 3, updated = 1, total = 2\<rparr>"
    using example_source_row_lines example_build_cmd by (rule conjI)
  show ?thesis
    using t [THEN conjunct1]
      t [THEN conjunct2, THEN conjunct1, THEN mp, OF h]
      t [THEN conjunct2, THEN conjunct2, THEN mp, OF example_header_complete]
    unfolding l u by (intro conjI)
qed

text \<open>
  C9, as amended. With a mapping path that does not exist, a build stops before any
  processing and writes nothing; it reports \<open>MappingNotFound\<close> when the source path
  exists, and \<open>SourceNotFound\<close> when it does not, since the source is checked first.
\<close>

theorem missing_mapping_stops_merger:
  assumes "fs mapping_csv = None"
  shows "main_cmd fs (Build source_csv mapping_csv output_csv) =
           (if fs source_csv = None then SourceNotFound source_csv else MappingNotFound mapping_csv, fs)
       \<and> (lower command = ''build'' \<longrightarrow>
            main_tr fs (prog # command # source_csv # mapping_csv # rest) =
              (if fs source_csv = None then SourceNotFound source_csv else MappingNotFound mapping_csv, fs))"
  using assms by (simp add: main_tr_def)

theorem missing_mapping_stops_merger_witness:
  "main_cmd (map_of [(''source.csv'', example_source)]) (Build ''source.csv'' ''mapping.csv'' ''out.csv'') =
     (MappingNotFound ''mapping.csv'', map_of [(''source.csv'', example_source)])
   \<and> main_tr (map_of [(''source.csv'', example_source)])
        [''translations.py'', ''BUILD'', ''source.csv'', ''mapping.csv''] =
     (MappingNotFound ''mapping.csv'', map_of [(''source.csv'', example_source)])"
proof -
  have a: "map_of [(''source.csv'', example_source)] ''mapping.csv'' = None" by simp
  have b: "lower ''BUILD'' = ''build''" by (simp add: lower_def lower_char_def char_of_def bit_0)
  have c: "(if map_of [(''source.csv'', example_source)] ''source.csv'' = None
            then SourceNotFound ''source.csv'' else MappingNotFound ''mapping.csv'') =
           MappingNotFound ''mapping.csv''" by simp
  note t = missing_mapping_stops_merger [where fs = "map_of [(''source.csv'', example_source)]"
      and mapping_csv = "''mapping.csv''" and source_csv = "''source.csv''" and output_csv = "''out.csv''"
      and command = "''BUILD''" and prog = "''translations.py''" and rest = "[]", OF a]
  show ?thesis
    using t [THEN conjunct1] t [THEN conjunct2, rule_format, OF b]
    unfolding c by (rule conjI)
qed

text \<open>
  C9 as stated fails when the source path does not exist either: the run reports the
  missing source, not the missing mapping.
\<close>

theorem missing_mapping_counterexample:
  "(map_of [] :: fs) ''mapping.csv'' = None
   \<and> fst (main_cmd (map_of []) (Build ''source.csv'' ''mapping.csv'' ''out.csv'')) = SourceNotFound ''source.csv''
   \<and> fst (main_cmd (map_of []) (Build ''source.csv'' ''mapping.csv'' ''out.csv'')) \<noteq> MappingNotFound ''mapping.csv''
   \<and> fst (main_tr (map_of []) [''translations.py'', ''build'', ''source.csv'', ''mapping.csv''])
        = SourceNotFound ''source.csv''"
  by (simp add: main_tr_def lower_def lower_char_def char_of_def bit_0)

text \<open>
  C8, as amended. For a source whose first three lines are each a complete csv record,
  the two variants of the Merger fail on the same inputs with the same exception, and
  when they return they have written the same data rows after their header portions
  (the raw header lines in \<^verbatim>\<open>transcmd.py\<close>, the re-quoted header records that are not
  empty in \<^verbatim>\<open>translations.py\<close>), with the same count of updated rows.
\<close>

theorem variants_emit_same_data_rows:
  assumes "fs source_csv = Some stored"
    and "\<forall>l \<in> set (take 3 (file_lines (universal_newlines stored))). complete_record l"
  shows "(\<forall>e. fst (build_translation_file_cmd fs source_csv mapping_csv output_csv) = Inl e \<longleftrightarrow>
               fst (build_translation_file_tr fs source_csv mapping_csv output_csv) = Inl e)
       \<and> (\<forall>rep. fst (build_translation_file_cmd fs source_csv mapping_csv output_csv) = Inr rep \<longrightarrow>
            (\<exists>rep_tr data_rows.
               fst (build_translation_file_tr fs source_csv mapping_csv output_csv) = Inr rep_tr \<and>
               updated rep_tr = updated rep \<and>
               total rep_tr = preserved rep_tr + total rep \<and>
               length data_rows = total rep \<and>
               snd (build_translation_file_cmd fs source_csv mapping_csv output_csv) output_csv =
                 Some (concat (take 3 (file_lines (universal_newlines stored))) @ writerows data_rows) \<and>
               snd (build_translation_file_tr fs source_csv mapping_csv output_csv) output_csv =
                 Some (writerows (filter (\<lambda>header_row. header_row \<noteq> [])
                         (take 3 (fst (csv_reader (file_lines (universal_newlines stored)))))) @
                       writerows data_rows)))"
  unfolding build_cmd_eq build_tr_eq
  using assms(1) data_rows_agree [OF assms(2)]
  apply (auto split: sum.splits option.splits)
  subgoal for index
    by (rule exI [where x = "map (\<lambda>r. [r ! 0, r ! 1,
          case map_of index (r ! 0) of Some t \<Rightarrow> t | None \<Rightarrow> r ! 2])
          (filter (\<lambda>r. 3 \<le> length r) (fst (data_rows_tr stored)))"]) simp
  done

theorem variants_emit_same_data_rows_witness:
  "\<exists>rep_tr data_rows.
     fst (build_translation_file_tr example_files ''source.csv'' ''mapping.csv'' ''out.csv'') = Inr rep_tr \<and>
     updated rep_tr = updated \<lparr>loaded = 1, preserved = 3, updated = 1, total = 2\<rparr> \<and>
     total rep_tr = preserved rep_tr + total \<lparr>loaded = 1, preserved = 3, updated = 1, total = 2\<rparr> \<and>
     length data_rows = total \<lparr>loaded = 1, preserved = 3, updated = 1, total = 2\<rparr> \<and>
     snd (build_translation_file_cmd example_files ''source.csv'' ''mapping.csv'' ''out.csv'') ''out.csv'' =
       Some (concat (take 3 (file_lines (universal_newlines example_source))) @ writerows data_rows) \<and>
     snd (build_translation_file_tr example_files ''source.csv'' ''mapping.csv'' ''out.csv'') ''out.csv'' =
       Some (writerows (filter (\<lambda>header_row. header_row \<noteq> [])
               (take 3 (fst (csv_reader (file_lines (universal_newlines example_source)))))) @
             writerows data_rows)"
proof -
  have a: "example_files ''source.csv'' = Some example_source" by simp
  note t = variants_emit_same_data_rows [where fs = "example_files"
      and source_csv = "''source.csv''" and stored = "example_source"
      and mapping_csv = "''mapping.csv''" and output_csv = "''out.csv''",
      OF a example_header_complete]
  show ?thesis
    by (rule t [THEN conjunct2, THEN spec, THEN mp, OF example_build_cmd])
qed

text \<open>
  C8 as stated fails when a quoted field of the header runs over a line break: the third
  header record of this source takes two lines, so \<^verbatim>\<open>transcmd.py\<close> starts parsing in
  the middle of it and writes a data row that \<^verbatim>\<open>translations.py\<close> does not.
\<close>

theorem variants_differ_counterexample:
  "snd (build_translation_file_cmd
          (map_of [(''source.csv'', split_header_source), (''mapping.csv'', [])])
          ''source.csv'' ''mapping.csv'' ''out.csv'') ''out.csv'' =
     Some (''a'' @ [LF] @ ''b'' @ [LF] @ [DQ] @ ''c'' @ [LF] @
           writerows [[''k0'', ''o0'', ''f0'' @ [DQ]], [''k1'', ''o1'', ''f1'']])
   \<and> snd (build_translation_file_tr
          (map_of [(''source.csv'', split_header_source), (''mapping.csv'', [])])
          ''source.csv'' ''mapping.csv'' ''out.csv'') ''out.csv'' =
     Some (writerows [[''a''], [''b''], [''c'' @ [LF] @ ''k0,o0,f0'', ''z'']] @
           writerows [[''k1'', ''o1'', ''f1'']])
   \<and> read_source_cmd [] split_header_source =
     Inr ([''a'' @ [LF], ''b'' @ [LF], [DQ] @ ''c'' @ [LF]],
          [[''k0'', ''o0'', ''f0'' @ [DQ]], [''k1'', ''o1'', ''f1'']], 0)
   \<and> read_source_tr [] split_header_source =
     Inr ([[''a''], [''b''], [''c'' @ [LF] @ ''k0,o0,f0'', ''z''], [''k1'', ''o1'', ''f1'']], 3, 0)
   \<and> drop 3 [[''a''], [''b''], [''c'' @ [LF] @ ''k0,o0,f0'', ''z''], [''k1'', ''o1'', ''f1'']] \<noteq>
       [[''k0'', ''o0'', ''f0'' @ [DQ]], [''k1'', ''o1'', ''f1'']]"
  by (simp add: run_defs)

text \<open>
  C3, as amended. For a source whose first three lines are each a complete csv record,
  when the Extractor returns, the Merger run on the same source with the Extractor's
  output as mapping file returns as well; every data row it writes has a key of the
  Translation Index and carries the index value of its key as resolved text; and the
  resolved text of a row equals its original text when no later data row has the same
  key.
\<close>

theorem extract_then_merge:
  assumes "fs source_csv = Some stored"
    and "\<forall>l \<in> set (take 3 (file_lines (universal_newlines stored))). complete_record l"
    and "fst (create_mapping_file fs source_csv mapping_csv) = Inr n"
  shows "\<exists>index stored_again header_lines data_rows rep.
      load_translations (snd (create_mapping_file fs source_csv mapping_csv)) mapping_csv = Inr index \<and>
      snd (create_mapping_file fs source_csv mapping_csv) source_csv = Some stored_again \<and>
      read_source_cmd index stored_again = Inr (header_lines, data_rows, updated rep) \<and>
      fst (build_translation_file_cmd (snd (create_mapping_file fs source_csv mapping_csv))
             source_csv mapping_csv output_csv) = Inr rep \<and>
      snd (build_translation_file_cmd (snd (create_mapping_file fs source_csv mapping_csv))
             source_csv mapping_csv output_csv) output_csv =
        Some (concat header_lines @ writerows data_rows) \<and>
      updated rep = length data_rows \<and>
      (\<forall>d \<in> set data_rows. map_of index (d ! 0) = Some (d ! 2)) \<and>
      (\<forall>i < length data_rows.
         (\<forall>j. i < j \<and> j < length data_rows \<longrightarrow> data_rows ! j ! 0 \<noteq> data_rows ! i ! 0) \<longrightarrow>
         data_rows ! i ! 2 = data_rows ! i ! 1)"
proof -
  define content where "content = (if mapping_csv = source_csv then [] else stored)"
  define kept where "kept = filter (\<lambda>r. 3 \<le> length r) (fst (data_rows_tr content))"
  define E where "E = map (\<lambda>r. [r ! 0, r ! 1]) kept"
  define index where
    "index = fold (\<lambda>r t. if 2 \<le> length r then AList.update (r ! 0) (r ! 1) t else t) E []"
  define fs1 where "fs1 = snd (create_mapping_file fs source_csv mapping_csv)"
  define resolve where
    "resolve = (\<lambda>r::row. [r ! 0, r ! 1, case map_of index (r ! 0) of Some t \<Rightarrow> t | None \<Rightarrow> r ! 2])"
  have no_err: "snd (data_rows_tr content) = None"
    using assms(1,3) unfolding create_mapping_file_eq content_def
    by (auto split: option.splits)
  have fs1: "fs1 = fs(mapping_csv \<mapsto> writerows E)"
    using assms(1) unfolding fs1_def create_mapping_file_eq E_def kept_def content_def by simp
  have complete: "\<forall>l \<in> set (take 3 (file_lines (universal_newlines content))). complete_record l"
    using assms(2) unfolding content_def by simp
  have same: "data_rows_cmd content = data_rows_tr content"
    using complete by (rule data_rows_agree)
  have readback: "csv_reader (file_lines (universal_newlines (writerows E))) = (E, None)"
    unfolding E_def kept_def by (rule read_back_extracted)
  have load: "load_translations fs1 mapping_csv = Inr index"
    unfolding load_translations_eq fs1 index_def using readback by simp
  have src: "fs1 source_csv = Some content"
  proof (cases "mapping_csv = source_csv")
    case True
    then have "E = []" unfolding E_def kept_def content_def by (simp add: data_rows_tr_Nil)
    then show ?thesis using True unfolding fs1 content_def by (simp add: writerows_def)
  next
    case False
    then show ?thesis using assms(1) unfolding fs1 content_def by simp
  qed
  have found: "\<exists>v. map_of index (kept ! i ! 0) = Some v" if "i < length kept" for i
    using extracted_index(1) [OF that] unfolding index_def E_def .
  have matched: "filter (\<lambda>r. 3 \<le> length r \<and> map_of index (r ! 0) \<noteq> None) (fst (data_rows_tr content)) = kept"
  proof -
    have "\<forall>r \<in> set kept. map_of index (r ! 0) \<noteq> None"
    proof
      fix r assume "r \<in> set kept"
      then obtain i where "i < length kept" "r = kept ! i" by (auto simp: in_set_conv_nth)
      then show "map_of index (r ! 0) \<noteq> None" using found by auto
    qed
    then have "filter (\<lambda>r. map_of index (r ! 0) \<noteq> None) kept = kept"
      by (simp add: filter_id_conv)
    then show ?thesis unfolding kept_def by (simp add: conj_commute)
  qed
  define rep where "rep = \<lparr>loaded = length index, preserved = 3,
      updated = length kept, total = length kept\<rparr>"
  have rs: "read_source_cmd index content =
      Inr (take 3 (file_lines (universal_newlines content)), map resolve kept, updated rep)"
    unfolding read_source_cmd_eq same resolve_def rep_def
    using no_err matched by (simp add: kept_def)
  have build: "build_translation_file_cmd fs1 source_csv mapping_csv output_csv =
      (Inr rep, fs1(output_csv \<mapsto>
         concat (take 3 (file_lines (universal_newlines content))) @ writerows (map resolve kept)))"
    unfolding build_cmd_eq using load src no_err same matched
    by (simp add: rep_def resolve_def kept_def)
  have in_index: "\<forall>d \<in> set (map resolve kept). map_of index (d ! 0) = Some (d ! 2)"
  proof
    fix d assume "d \<in> set (map resolve kept)"
    then obtain i where i: "i < length kept" "d = resolve (kept ! i)"
      by (auto simp: in_set_conv_nth)
    from found [OF i(1)] obtain v where "map_of index (kept ! i ! 0) = Some v" ..
    then show "map_of index (d ! 0) = Some (d ! 2)"
      using i(2) by (simp add: resolve_def numeral_2_eq_2)
  qed
  have last_wins: "\<forall>i < length (map resolve kept).
         (\<forall>j. i < j \<and> j < length (map resolve kept) \<longrightarrow>
              map resolve kept ! j ! 0 \<noteq> map resolve kept ! i ! 0) \<longrightarrow>
         map resolve kept ! i ! 2 = map resolve kept ! i ! 1"
  proof (intro allI impI)
    fix i
    assume i: "i < length (map resolve kept)"
      and later: "\<forall>j. i < j \<and> j < length (map resolve kept) \<longrightarrow>
              map resolve kept ! j ! 0 \<noteq> map resolve kept ! i ! 0"
    have i': "i < length kept" using i by simp
    have "\<forall>j. i < j \<and> j < length kept \<longrightarrow> kept ! j ! 0 \<noteq> kept ! i ! 0"
      using later i' by (simp add: resolve_def)
    then have "map_of index (kept ! i ! 0) = Some (kept ! i ! 1)"
      using extracted_index(2) [OF i'] unfolding index_def E_def by blast
    then show "map resolve kept ! i ! 2 = map resolve kept ! i ! 1"
      using i' by (simp add: resolve_def numeral_2_eq_2)
  qed
  have "load_translations fs1 mapping_csv = Inr index \<and>
      fs1 source_csv = Some content \<and>
      read_source_cmd index content =
        Inr (take 3 (file_lines (universal_newlines content)), map resolve kept, updated rep) \<and>
      fst (build_translation_file_cmd fs1 source_csv mapping_csv output_csv) = Inr rep \<and>
      snd (build_translation_file_cmd fs1 source_csv mapping_csv output_csv) output_csv =
        Some (concat (take 3 (file_lines (universal_newlines content))) @ writerows (map resolve kept)) \<and>
      updated rep = length (map resolve kept) \<and>
      (\<forall>d \<in> set (map resolve kept). map_of index (d ! 0) = Some (d ! 2)) \<and>
      (\<forall>i < length (map resolve kept).
         (\<forall>j. i < j \<and> j < length (map resolve kept) \<longrightarrow>
              map resolve kept ! j ! 0 \<noteq> map resolve kept ! i ! 0) \<longrightarrow>
         map resolve kept ! i ! 2 = map resolve kept ! i ! 1)"
    using load src rs build in_index last_wins by (simp add: rep_def)
  then show ?thesis unfolding fs1_def by blast
qed

theorem extract_then_merge_witness:
  "\<exists>index stored_again header_lines data_rows rep.
      load_translations (snd (create_mapping_file example_files ''source.csv'' ''edit.csv'')) ''edit.csv'' = Inr index \<and>
      snd (create_mapping_file example_files ''source.csv'' ''edit.csv'') ''source.csv'' = Some stored_again \<and>
      read_source_cmd index stored_again = Inr (header_lines, data_rows, updated rep) \<and>
      fst (build_translation_file_cmd (snd (create_mapping_file example_files ''source.csv'' ''edit.csv''))
             ''source.csv'' ''edit.csv'' ''out.csv'') = Inr rep \<and>
      snd (build_translation_file_cmd (snd (create_mapping_file example_files ''source.csv'' ''edit.csv''))
             ''source.csv'' ''edit.csv'' ''out.csv'') ''out.csv'' =
        Some (concat header_lines @ writerows data_rows) \<and>
      updated rep = length data_rows \<and>
      (\<forall>d \<in> set data_rows. map_of index (d ! 0) = Some (d ! 2)) \<and>
      (\<forall>i < length data_rows.
         (\<forall>j. i < j \<and> j < length data_rows \<longrightarrow> data_rows ! j ! 0 \<noteq> data_rows ! i ! 0) \<longrightarrow>
         data_rows ! i ! 2 = data_rows ! i ! 1)"
proof -
  have a: "example_files ''source.csv'' = Some example_source" by simp
  have c: "fst (create_mapping_file example_files ''source.csv'' ''edit.csv'') = Inr 2"
    by (simp add: run_defs)
  show ?thesis
    by (rule extract_then_merge [where fs = "example_files" and source_csv = "''source.csv''"
          and stored = "example_source" and mapping_csv = "''edit.csv''" and n = 2
          and output_csv = "''out.csv''", OF a example_header_complete c])
qed

text \<open>
  C3 as stated fails in two ways. With a header record that runs over a line break the
  Merger writes a data row (key \<open>k0\<close>) that the Extractor skipped as part of the header,
  so its key is not in the index and its resolved text is its own third field. With a
  key carried by two data rows, the first row gets the original text of the second,
  although its own original text equals its third field.
\<close>

theorem extract_then_merge_counterexample:
  "load_translations
     (snd (create_mapping_file (map_of [(''source.csv'', split_header_source)])
             ''source.csv'' ''edit.csv'')) ''edit.csv'' = Inr [(''k1'', ''o1'')]
   \<and> snd (build_translation_file_cmd
            (snd (create_mapping_file (map_of [(''source.csv'', split_header_source)])
                    ''source.csv'' ''edit.csv''))
            ''source.csv'' ''edit.csv'' ''out.csv'') ''out.csv'' =
       Some (''a'' @ [LF] @ ''b'' @ [LF] @ [DQ] @ ''c'' @ [LF] @
             writerows [[''k0'', ''o0'', ''f0'' @ [DQ]], [''k1'', ''o1'', ''o1'']])
   \<and> map_of [(''k1'', ''o1'')] ''k0'' = None
   \<and> load_translations
     (snd (create_mapping_file (map_of [(''source.csv'', repeated_key_source)])
             ''source.csv'' ''edit.csv'')) ''edit.csv'' = Inr [(''k'', ''b'')]
   \<and> snd (build_translation_file_cmd
            (snd (create_mapping_file (map_of [(''source.csv'', repeated_key_source)])
                    ''source.csv'' ''edit.csv''))
            ''source.csv'' ''edit.csv'' ''out.csv'') ''out.csv'' =
       Some (''H1'' @ [LF] @ ''H2'' @ [LF] @ ''H3'' @ [LF] @
             writerows [[''k'', ''a'', ''b''], [''k'', ''b'', ''b'']])"
  by (simp add: run_defs)

text \<open>
  C2. The first three lines of the output are to be byte-identical to the first three
  lines of the source. They are not for a source with \<^verbatim>\<open>\r\n\<close> line ends: the source
  is read with universal newlines, so each header line reaches \<^verbatim>\<open>header_lines\<close> ending
  in \<^verbatim>\<open>\n\<close>, and the output file, opened with \<^verbatim>\<open>newline=''\<close>, stores it so. The
  run below shows the output and that its first 24 characters differ from the 24
  characters of the source's three header lines.
\<close>

theorem crlf_header_rewritten:
  "snd (build_translation_file_cmd
          (map_of [(''source.csv'', crlf_source), (''mapping.csv'', example_mapping)])
          ''source.csv'' ''mapping.csv'' ''out.csv'') ''out.csv'' =
     Some (''Language'' @ [LF] @ [LF] @ ''NormalText'' @ [LF] @
           writerows [[''k1'', ''o1'', ''t2'']])
   \<and> take 24 crlf_source = ''Language'' @ [CR, LF] @ [CR, LF] @ ''NormalText'' @ [CR, LF]
   \<and> take 24 (''Language'' @ [LF] @ [LF] @ ''NormalText'' @ [LF] @
           writerows [[''k1'', ''o1'', ''t2'']]) \<noteq>
       ''Language'' @ [CR, LF] @ [CR, LF] @ ''NormalText'' @ [CR, LF]"
  by (simp add: run_defs)

end
